theory Spec2Isabelle
  imports Main
begin

section \<open>JavaScript values, strings and the document tree\<close>

text \<open>
  The element model of Silex (\<^verbatim>\<open>src/js/model/element.js\<close>) works on DOM elements.
  A string is a list of 8-bit characters, each standing for one code unit below 256.
  An optional string argument (\<^verbatim>\<open>?string=\<close>) is \<^verbatim>\<open>undefined\<close>, \<^verbatim>\<open>null\<close> or a string.
\<close>

datatype jsopt = Undefined | Null | Str string

text \<open>
  \<^verbatim>\<open>String.prototype.split(sep)\<close> for a one-character separator keeps empty pieces and
  returns at least one piece; \<^verbatim>\<open>Array.prototype.join\<close> puts the separator between the
  pieces.
\<close>

fun split_on :: "(char \<Rightarrow> bool) \<Rightarrow> string \<Rightarrow> string list" where
  "split_on P [] = [[]]"
| "split_on P (c # cs) =
     (if P c then [] # split_on P cs
      else (case split_on P cs of [] \<Rightarrow> [[c]] | w # ws \<Rightarrow> (c # w) # ws))"

fun join :: "string \<Rightarrow> string list \<Rightarrow> string" where
  "join sep [] = []"
| "join sep [x] = x"
| "join sep (x # y # ys) = x @ sep @ join sep (y # ys)"

text \<open>
  Nodes are objects with identity: a reference is an address into a store of nodes, and
  \<^verbatim>\<open>===\<close> on two elements compares addresses. A node holds its type
  (\<^verbatim>\<open>nodeType\<close>, 1 for an element, 3 for a text node), its tag (in upper case, as
  the DOM reports it), its attributes, the text of a text node, its parent and its
  children in document order.
\<close>

type_synonym nid = nat

record node =
  nodeType :: nat
  tagName :: string
  attrs :: "string \<rightharpoonup> string"
  nodeValue :: string
  parentNode :: "nid option"
  childNodes :: "nid list"

text \<open>
  What the code writes besides the tree: \<^verbatim>\<open>console.error\<close>, the two optional
  callbacks of \<^verbatim>\<open>setImageUrl\<close> (a callback is known by an identifier, a call is
  recorded with its arguments), and the redraw request
  \<^verbatim>\<open>this.model.body.setSelection(this.model.body.getSelection())\<close>.
\<close>

type_synonym cb = nat

datatype event =
    ConsoleError string nid
  | Callback cb nid nid
  | ErrorCallback cb nid string
  | SetSelection

text \<open>
  An image load in flight (\<^verbatim>\<open>goog.net.ImageLoader\<close> with its two
  \<^verbatim>\<open>listenOnce\<close> handlers): the element and the callbacks the handlers closed over,
  and the image node the loader created.
\<close>

record loader =
  ld_element :: nid
  ld_image :: nid
  ld_callback :: "cb option"
  ld_errorCallback :: "cb option"

record state =
  nodes :: "nid \<Rightarrow> node"
  nextNode :: nid
  styleStore :: "nid \<rightharpoonup> (string \<rightharpoonup> string)"
  storeWrites :: "nid list"
  silexIds :: "nid \<rightharpoonup> string"
  editable :: "nid \<Rightarrow> bool"
  events :: "event list"
  loaders :: "loader list"

definition upd_node :: "nid \<Rightarrow> (node \<Rightarrow> node) \<Rightarrow> state \<Rightarrow> state" where
  "upd_node n f st = st\<lparr>nodes := (nodes st)(n := f (nodes st n))\<rparr>"

definition getAttribute :: "state \<Rightarrow> nid \<Rightarrow> string \<Rightarrow> string option" where
  "getAttribute st el name = attrs (nodes st el) name"

definition setAttribute :: "nid \<Rightarrow> string \<Rightarrow> string \<Rightarrow> state \<Rightarrow> state" where
  "setAttribute el name v = upd_node el (\<lambda>n. n\<lparr>attrs := (attrs n)(name \<mapsto> v)\<rparr>)"

definition removeAttribute :: "nid \<Rightarrow> string \<Rightarrow> state \<Rightarrow> state" where
  "removeAttribute el name = upd_node el (\<lambda>n. n\<lparr>attrs := (attrs n)(name := None)\<rparr>)"

section \<open>Constants of the element model\<close>

definition LOADING_ELEMENT_CSS_CLASS :: string where
  "LOADING_ELEMENT_CSS_CLASS = ''loading-image''"

definition TYPE_CONTAINER :: string where "TYPE_CONTAINER = ''container''"
definition TYPE_IMAGE :: string where "TYPE_IMAGE = ''image''"
definition TYPE_TEXT :: string where "TYPE_TEXT = ''text''"
definition TYPE_HTML :: string where "TYPE_HTML = ''html''"
definition TYPE_ATTR :: string where "TYPE_ATTR = ''data-silex-type''"

definition ELEMENT_CONTENT_CLASS_NAME :: string where
  "ELEMENT_CONTENT_CLASS_NAME = ''silex-element-content''"

definition LINK_ATTR :: string where "LINK_ATTR = ''data-silex-href''"

definition JUST_ADDED_CLASS_NAME :: string where
  "JUST_ADDED_CLASS_NAME = ''silex-just-added''"

section \<open>Collaborators\<close>

text \<open>
  The element model reaches its collaborators through \<^verbatim>\<open>this.model\<close>,
  \<^verbatim>\<open>this.view\<close> and the \<^verbatim>\<open>silex.utils\<close> helpers; their code is in other files. What
  they answer is a parameter of the model:
  \<^item> \<^verbatim>\<open>model.body.getBodyElement()\<close>;
  \<^item> \<^verbatim>\<open>model.file.getUrl()\<close> (\<^verbatim>\<open>null\<close> when no file is open) and
    \<^verbatim>\<open>silex.utils.Url.getBaseUrl()\<close>;
  \<^item> \<^verbatim>\<open>silex.utils.Url.relative2Absolute\<close>, \<^verbatim>\<open>absolute2Relative\<close> and
    \<^verbatim>\<open>silex.utils.Dom.removeCacheControl\<close>, as functions on strings;
  \<^item> \<^verbatim>\<open>silex.utils.Style.SILEX_CLASS_NAMES\<close> and \<^verbatim>\<open>model.page.getPages()\<close>;
  \<^item> \<^verbatim>\<open>model.page.isInPage(el)\<close> and \<^verbatim>\<open>model.page.getPagesForElement(el)\<close>, as the
    page registry's answer for each node;
  \<^item> \<^verbatim>\<open>silex.view.Stage.BACKGROUND_CLASS_NAME\<close>,
    \<^verbatim>\<open>silex.model.Body.EDITABLE_CLASS_NAME\<close> and the stage's scroll offsets;
  \<^item> the id that \<^verbatim>\<open>model.property.initSilexId\<close> generates for a node.
\<close>

record env =
  bodyElement :: nid
  fileUrl :: "string option"
  baseUrl :: string
  relative2Absolute :: "string \<Rightarrow> string \<Rightarrow> string"
  absolute2Relative :: "string \<Rightarrow> string \<Rightarrow> string"
  removeCacheControl :: "string \<Rightarrow> string"
  SILEX_CLASS_NAMES :: "string list"
  getPages :: "string list"
  isInPage :: "nid \<Rightarrow> bool"
  getPagesForElement :: "nid \<Rightarrow> string list"
  BACKGROUND_CLASS_NAME :: string
  EDITABLE_CLASS_NAME :: string
  getScrollX :: int
  getScrollY :: int
  newSilexId :: "nid \<Rightarrow> string"

section \<open>DOM operations\<close>

text \<open>
  \<^verbatim>\<open>element.className\<close> is the \<^verbatim>\<open>class\<close> attribute, the empty string when the attribute
  is absent. \<^verbatim>\<open>element.classList\<close> (which \<^verbatim>\<open>goog.dom.classlist\<close> delegates to) is the
  DOM token list of that attribute: the attribute split on ASCII whitespace, without
  empty pieces and without repetitions; \<^verbatim>\<open>add\<close> and \<^verbatim>\<open>remove\<close> write the attribute
  back as the tokens joined by single spaces (\<^verbatim>\<open>remove\<close> leaves an element without
  the attribute alone).
\<close>

definition className :: "state \<Rightarrow> nid \<Rightarrow> string" where
  "className st el = (case attrs (nodes st el) ''class'' of None \<Rightarrow> [] | Some c \<Rightarrow> c)"

definition asciiWhitespace :: "char \<Rightarrow> bool" where
  "asciiWhitespace c \<longleftrightarrow>
     c = CHR 0x09 \<or> c = CHR 0x0A \<or> c = CHR 0x0C \<or> c = CHR 0x0D \<or> c = CHR 0x20"

definition classTokens :: "string \<Rightarrow> string list" where
  "classTokens s = rev (remdups (rev (filter (\<lambda>w. w \<noteq> []) (split_on asciiWhitespace s))))"

definition classList :: "state \<Rightarrow> nid \<Rightarrow> string list" where
  "classList st el = classTokens (className st el)"

definition classList_add :: "nid \<Rightarrow> string \<Rightarrow> state \<Rightarrow> state" where
  "classList_add el tok st =
     (let ts = classList st el
      in setAttribute el ''class'' (join '' '' (if tok \<in> set ts then ts else ts @ [tok])) st)"

definition classList_remove :: "nid \<Rightarrow> string \<Rightarrow> state \<Rightarrow> state" where
  "classList_remove el tok st =
     (let ts = filter (\<lambda>t. t \<noteq> tok) (classList st el)
      in if attrs (nodes st el) ''class'' = None \<and> ts = [] then st
         else setAttribute el ''class'' (join '' '' ts) st)"

text \<open>
  Tree surgery. \<^verbatim>\<open>goog.dom.removeNode(node)\<close> takes the node out of its parent's
  children when it has a parent. \<^verbatim>\<open>parent.insertBefore(node, child)\<close> first takes the
  node out of where it is, then puts it before \<^verbatim>\<open>child\<close>, or last when \<^verbatim>\<open>child\<close> is
  \<^verbatim>\<open>null\<close>; when \<^verbatim>\<open>child\<close> is the node itself, the reference is the node's next
  sibling. \<^verbatim>\<open>parent.appendChild(node)\<close> is \<^verbatim>\<open>insertBefore(node, null)\<close>. In this file
  the reference child is always a child of the parent, and a node is never inserted
  under one of its own descendants, so the DOM's exceptions for these cases have no
  branch here.
\<close>

definition removeNode :: "nid \<Rightarrow> state \<Rightarrow> state" where
  "removeNode n st =
     (case parentNode (nodes st n) of
        None \<Rightarrow> st
      | Some p \<Rightarrow>
          upd_node n (\<lambda>x. x\<lparr>parentNode := None\<rparr>)
            (upd_node p (\<lambda>x. x\<lparr>childNodes := removeAll n (childNodes x)\<rparr>) st))"

definition nextSibling :: "state \<Rightarrow> nid \<Rightarrow> nid option" where
  "nextSibling st n =
     (case parentNode (nodes st n) of
        None \<Rightarrow> None
      | Some p \<Rightarrow>
          (case dropWhile (\<lambda>c. c \<noteq> n) (childNodes (nodes st p)) of
             _ # s # _ \<Rightarrow> Some s
           | _ \<Rightarrow> None))"

definition insert_before :: "nid option \<Rightarrow> nid \<Rightarrow> nid list \<Rightarrow> nid list" where
  "insert_before child n cs =
     (case child of
        None \<Rightarrow> cs @ [n]
      | Some r \<Rightarrow> takeWhile (\<lambda>c. c \<noteq> r) cs @ n # dropWhile (\<lambda>c. c \<noteq> r) cs)"

definition insertBefore :: "nid \<Rightarrow> nid \<Rightarrow> nid option \<Rightarrow> state \<Rightarrow> state" where
  "insertBefore parent n child st =
     (let ref = (if child = Some n then nextSibling st n else child);
          st1 = removeNode n st
      in upd_node n (\<lambda>x. x\<lparr>parentNode := Some parent\<rparr>)
           (upd_node parent (\<lambda>x. x\<lparr>childNodes := insert_before ref n (childNodes x)\<rparr>) st1))"

definition appendChild :: "nid \<Rightarrow> nid \<Rightarrow> state \<Rightarrow> state" where
  "appendChild parent n st = insertBefore parent n None st"

text \<open>
  \<^verbatim>\<open>goog.dom.contains(parent, descendant)\<close>: the parent is the descendant or one of its
  ancestors. The walk up the parent links is bounded by the number of nodes ever
  created, which no chain of ancestors exceeds.
\<close>

fun containsUp :: "nat \<Rightarrow> (nid \<Rightarrow> node) \<Rightarrow> nid \<Rightarrow> nid \<Rightarrow> bool" where
  "containsUp 0 h parent d = (d = parent)"
| "containsUp (Suc k) h parent d =
     (d = parent \<or>
      (case parentNode (h d) of None \<Rightarrow> False | Some p \<Rightarrow> containsUp k h parent p))"

definition contains :: "state \<Rightarrow> nid \<Rightarrow> nid \<Rightarrow> bool" where
  "contains st parent descendant = containsUp (nextNode st) (nodes st) parent descendant"

text \<open>
  For comparison, the relation itself, without a bound: a node is its own ancestor-or-self,
  and so is every ancestor-or-self of its parent.
\<close>

inductive ancestorOrSelf :: "(nid \<Rightarrow> node) \<Rightarrow> nid \<Rightarrow> nid \<Rightarrow> bool" for h where
  self: "ancestorOrSelf h p p"
| up: "parentNode (h d) = Some q \<Longrightarrow> ancestorOrSelf h p q \<Longrightarrow> ancestorOrSelf h p d"

text \<open>
  The descendants of a node in document order, as \<^verbatim>\<open>goog.dom.getElementsByClass\<close> and
  \<^verbatim>\<open>getElementsByTagNameAndClass\<close> visit them (the node itself is not among them); the
  depth is bounded like the walk above.
\<close>

fun descendants :: "nat \<Rightarrow> (nid \<Rightarrow> node) \<Rightarrow> nid \<Rightarrow> nid list" where
  "descendants 0 h n = []"
| "descendants (Suc k) h n = concat (map (\<lambda>c. c # descendants k h c) (childNodes (h n)))"

definition hasClass :: "state \<Rightarrow> string \<Rightarrow> nid \<Rightarrow> bool" where
  "hasClass st cls el \<longleftrightarrow> nodeType (nodes st el) = 1 \<and> cls \<in> set (classList st el)"

definition getElementsByClass :: "state \<Rightarrow> string \<Rightarrow> nid \<Rightarrow> nid list" where
  "getElementsByClass st cls el =
     filter (hasClass st cls) (descendants (nextNode st) (nodes st) el)"

definition getElementsByTagNameAndClass :: "state \<Rightarrow> string \<Rightarrow> string \<Rightarrow> nid \<Rightarrow> nid list" where
  "getElementsByTagNameAndClass st tag cls el =
     filter (\<lambda>d. hasClass st cls d \<and> tagName (nodes st d) = tag)
       (descendants (nextNode st) (nodes st) el)"

section \<open>Type, content node and removal\<close>

definition getType :: "state \<Rightarrow> nid \<Rightarrow> string option" where
  "getType st element = getAttribute st element TYPE_ATTR"

definition getContentNode :: "state \<Rightarrow> nid \<Rightarrow> nid" where
  "getContentNode st element =
     (case getElementsByClass st ELEMENT_CONTENT_CLASS_NAME element of
        [content] \<Rightarrow> content
      | _ \<Rightarrow> element)"

definition removeElement :: "env \<Rightarrow> nid \<Rightarrow> state \<Rightarrow> state" where
  "removeElement env element st =
     (if bodyElement env \<noteq> element \<and> contains st (bodyElement env) element
      then removeNode element st
      else st\<lparr>events := events st @
             [ConsoleError ''could not delete because it is not in the stage element'' element]\<rparr>)"

section \<open>Order among siblings\<close>

datatype DomDirection = UP | DOWN | TOP | BOTTOM

text \<open>Reading a property of \<^verbatim>\<open>null\<close> (the parent of a detached node) throws.\<close>

datatype error = TypeError

text \<open>
  The body of the two loops of \<^verbatim>\<open>getPreviousElement\<close> and \<^verbatim>\<open>getNextElement\<close>: the
  nodes still to visit, and \<^verbatim>\<open>res\<close>, the last candidate seen. Falling off the end
  returns \<^verbatim>\<open>null\<close>.
\<close>

fun scanSiblings :: "env \<Rightarrow> state \<Rightarrow> nid \<Rightarrow> nid option \<Rightarrow> nid list \<Rightarrow> nid option" where
  "scanSiblings env st element res [] = None"
| "scanSiblings env st element res (el # els) =
     (if nodeType (nodes st el) = 1 \<and> getType st el \<noteq> None then
        (if el = element then res
         else if isInPage env el \<or> length (getPagesForElement env el) = 0
         then scanSiblings env st element (Some el) els
         else scanSiblings env st element res els)
      else scanSiblings env st element res els)"

definition getPreviousElement :: "env \<Rightarrow> state \<Rightarrow> nid \<Rightarrow> error + nid option" where
  "getPreviousElement env st element =
     (case parentNode (nodes st element) of
        None \<Rightarrow> Inl TypeError
      | Some parent \<Rightarrow> Inr (scanSiblings env st element None (childNodes (nodes st parent))))"

definition getNextElement :: "env \<Rightarrow> state \<Rightarrow> nid \<Rightarrow> error + nid option" where
  "getNextElement env st element =
     (case parentNode (nodes st element) of
        None \<Rightarrow> Inl TypeError
      | Some parent \<Rightarrow>
          Inr (scanSiblings env st element None (rev (childNodes (nodes st parent)))))"

definition firstChild :: "state \<Rightarrow> nid \<Rightarrow> nid option" where
  "firstChild st parent =
     (case childNodes (nodes st parent) of [] \<Rightarrow> None | c # _ \<Rightarrow> Some c)"

text \<open>
  \<^verbatim>\<open>element.parentNode.insertBefore(...)\<close> and \<^verbatim>\<open>element.parentNode.appendChild(...)\<close>
  throw when the element has no parent.
\<close>

definition withParent :: "state \<Rightarrow> nid \<Rightarrow> (nid \<Rightarrow> state) \<Rightarrow> error + state" where
  "withParent st element f =
     (case parentNode (nodes st element) of None \<Rightarrow> Inl TypeError | Some parent \<Rightarrow> Inr (f parent))"

definition move :: "env \<Rightarrow> nid \<Rightarrow> DomDirection \<Rightarrow> state \<Rightarrow> error + state" where
  "move env element direction st =
     (case (case direction of
              UP \<Rightarrow>
                (case getNextElement env st element of
                   Inl e \<Rightarrow> Inl e
                 | Inr None \<Rightarrow> Inr st
                 | Inr (Some sibling) \<Rightarrow>
                     withParent st element (\<lambda>parent. insertBefore parent sibling (Some element) st))
            | DOWN \<Rightarrow>
                (case getPreviousElement env st element of
                   Inl e \<Rightarrow> Inl e
                 | Inr None \<Rightarrow> Inr st
                 | Inr (Some sibling) \<Rightarrow>
                     withParent st element
                       (\<lambda>parent. insertBefore parent sibling (nextSibling st element) st))
            | TOP \<Rightarrow> withParent st element (\<lambda>parent. appendChild parent element st)
            | BOTTOM \<Rightarrow>
                withParent st element
                  (\<lambda>parent. insertBefore parent element (firstChild st parent) st)) of
        Inl e \<Rightarrow> Inl e
      | Inr st1 \<Rightarrow> Inr (classList_remove element JUST_ADDED_CLASS_NAME st1))"

section \<open>Links\<close>

text \<open>
  \<^verbatim>\<open>setLink\<close> tests the link for truthiness: \<^verbatim>\<open>undefined\<close>, \<^verbatim>\<open>null\<close> and the
  empty string all take the \<^verbatim>\<open>removeAttribute\<close> branch.
\<close>

definition setLink :: "nid \<Rightarrow> jsopt \<Rightarrow> state \<Rightarrow> state" where
  "setLink element opt_link st =
     (case opt_link of
        Str s \<Rightarrow> (if s \<noteq> [] then setAttribute element LINK_ATTR s st
                  else removeAttribute element LINK_ATTR st)
      | _ \<Rightarrow> removeAttribute element LINK_ATTR st)"

definition getLink :: "state \<Rightarrow> nid \<Rightarrow> string option" where
  "getLink st element = getAttribute st element LINK_ATTR"

section \<open>The property store and the body\<close>


definition property_setStyle :: "nid \<Rightarrow> (string \<rightharpoonup> string) \<Rightarrow> state \<Rightarrow> state" where
  "property_setStyle element styleObject st =
     st\<lparr>styleStore := (styleStore st)(element \<mapsto> styleObject),
        storeWrites := storeWrites st @ [element]\<rparr>"

definition property_initSilexId :: "(nid \<Rightarrow> string) \<Rightarrow> nid \<Rightarrow> state \<Rightarrow> state" where
  "property_initSilexId newId element st = st\<lparr>silexIds := (silexIds st)(element \<mapsto> newId element)\<rparr>"

definition property_getSilexId :: "state \<Rightarrow> nid \<Rightarrow> string option" where
  "property_getSilexId st element = silexIds st element"

text \<open>
  Modelled from the spec: \<^verbatim>\<open>this.model.body.setEditable(node, bool)\<close> of the document
  body collaborator, which marks a node editable or not.
\<close>

definition body_setEditable :: "nid \<Rightarrow> bool \<Rightarrow> state \<Rightarrow> state" where
  "body_setEditable element b st = st\<lparr>editable := (editable st)(element := b)\<rparr>"

section \<open>Preparing HTML for editing and back\<close>

text \<open>
  The regular expressions of the two transforms, as matchers: a matcher looks at the
  text from a position on and returns the length of the match that starts there, if
  there is one. \<^verbatim>\<open>.\<close> matches every character but a line terminator (line feed and
  carriage return, among the characters below 256). With the flag \<^verbatim>\<open>i\<close> two characters
  match when their upper-case forms are the same; \<^verbatim>\<open>canonicalize\<close> gives the code of
  the upper-case form of an ASCII letter and the code of the character otherwise, which
  decides every comparison with the ASCII characters of the patterns.
\<close>

definition lineTerminator :: "char \<Rightarrow> bool" where
  "lineTerminator c \<longleftrightarrow> c = CHR 0x0A \<or> c = CHR 0x0D"

definition canonicalize :: "char \<Rightarrow> nat" where
  "canonicalize c = (let n = of_char c in if 97 \<le> n \<and> n \<le> 122 then n - 32 else n)"

fun matchesIgnoreCase :: "string \<Rightarrow> string \<Rightarrow> bool" where
  "matchesIgnoreCase [] s = True"
| "matchesIgnoreCase (p # ps) [] = False"
| "matchesIgnoreCase (p # ps) (c # cs) =
     (canonicalize p = canonicalize c \<and> matchesIgnoreCase ps cs)"

text \<open>
  \<^verbatim>\<open>/<script.*class="silex-script".*?>/gi\<close>, from the inside out. The lazy \<^verbatim>\<open>.*?>\<close>
  stops at the first \<^verbatim>\<open>>\<close> and fails at a line terminator before it. The greedy
  \<^verbatim>\<open>.*\<close> first tries to take one more character and falls back to the attribute
  \<^verbatim>\<open>class="silex-script"\<close> at the present position, so the last occurrence of the
  attribute on the line that is followed by a \<^verbatim>\<open>>\<close> wins.
\<close>

fun lazyToGt :: "string \<Rightarrow> nat option" where
  "lazyToGt [] = None"
| "lazyToGt (c # cs) =
     (if c = CHR ''>'' then Some 1
      else if lineTerminator c then None
      else map_option Suc (lazyToGt cs))"

definition classThenGt :: "string \<Rightarrow> nat option" where
  "classThenGt s =
     (if matchesIgnoreCase ''class=\"silex-script\"'' s
      then map_option (\<lambda>n. length ''class=\"silex-script\"'' + n)
             (lazyToGt (drop (length ''class=\"silex-script\"'') s))
      else None)"

fun greedyToClass :: "string \<Rightarrow> nat option" where
  "greedyToClass [] = classThenGt []"
| "greedyToClass (c # cs) =
     (if lineTerminator c then classThenGt (c # cs)
      else (case greedyToClass cs of
              Some n \<Rightarrow> Some (Suc n)
            | None \<Rightarrow> classThenGt (c # cs)))"

definition matchScriptTag :: "string \<Rightarrow> nat option" where
  "matchScriptTag s =
     (if matchesIgnoreCase ''<script'' s
      then map_option (\<lambda>n. length ''<script'' + n) (greedyToClass (drop (length ''<script'') s))
      else None)"














section \<open>Styles\<close>







section \<open>Class names\<close>

text \<open>
  \<^verbatim>\<open>String.prototype.trim\<close> strips white space and line terminators from both ends;
  below 256 these are the characters 9 to 13, the space and the no-break space.
\<close>

definition jsWhitespace :: "char \<Rightarrow> bool" where
  "jsWhitespace c \<longleftrightarrow>
     c = CHR 0x09 \<or> c = CHR 0x0A \<or> c = CHR 0x0B \<or> c = CHR 0x0C \<or> c = CHR 0x0D
     \<or> c = CHR 0x20 \<or> c = CHR 0xA0"

definition trim :: "string \<Rightarrow> string" where
  "trim s = rev (dropWhile jsWhitespace (rev (dropWhile jsWhitespace s)))"

text \<open>
  The test of the callback in \<^verbatim>\<open>getClassName\<close>: the name is one of Silex's own class
  names, a page name, or the id of the element. For such a name the callback returns
  \<^verbatim>\<open>undefined\<close>, which \<^verbatim>\<open>join\<close> writes as the empty string.
\<close>

definition isInternalClass :: "env \<Rightarrow> state \<Rightarrow> nid \<Rightarrow> string \<Rightarrow> bool" where
  "isInternalClass env st element name \<longleftrightarrow>
     name \<in> set (SILEX_CLASS_NAMES env) \<or> name \<in> set (getPages env)
     \<or> property_getSilexId st element = Some name"

definition getClassName :: "env \<Rightarrow> state \<Rightarrow> nid \<Rightarrow> string" where
  "getClassName env st element =
     trim (join '' ''
       (map (\<lambda>x. case x of None \<Rightarrow> [] | Some name \<Rightarrow> name)
         (map (\<lambda>name. if isInternalClass env st element name then None else Some name)
           (split_on (\<lambda>c. c = CHR '' '') (className st element)))))"

text \<open>
  The spec's reading of \<^verbatim>\<open>publicClasses\<close>, for comparison: the internal classes are
  dropped and the survivors are joined with single spaces and trimmed.
\<close>

definition publicClasses_spec :: "env \<Rightarrow> state \<Rightarrow> nid \<Rightarrow> string" where
  "publicClasses_spec env st element =
     trim (join '' ''
       (filter (\<lambda>name. \<not> isInternalClass env st element name)
         (split_on (\<lambda>c. c = CHR '' '') (className st element))))"

text \<open>The non-empty pieces of a text between separators.\<close>

definition nonEmptyPieces :: "(char \<Rightarrow> bool) \<Rightarrow> string \<Rightarrow> string list" where
  "nonEmptyPieces P s = filter (\<lambda>w. w \<noteq> []) (split_on P s)"

section \<open>Creating elements\<close>

text \<open>Numbers are turned into strings by \<^verbatim>\<open>offsetY + 'px'\<close>; the offsets are integers.\<close>

function natToString :: "nat \<Rightarrow> string" where
  "natToString n =
     (if n < 10 then [''0123456789'' ! n]
      else natToString (n div 10) @ [''0123456789'' ! (n mod 10)])"
  by pat_completeness auto
termination
  by (relation "measure id") auto

declare natToString.simps [simp del]

definition numberToString :: "int \<Rightarrow> string" where
  "numberToString i = (if i < 0 then CHR ''-'' # natToString (nat (- i)) else natToString (nat i))"

text \<open>
  \<^verbatim>\<open>goog.dom.createElement(tag)\<close> and a text node: a new node at the next free address,
  detached and without children.
\<close>

definition createDomElement :: "string \<Rightarrow> state \<Rightarrow> nid \<times> state" where
  "createDomElement tag st =
     (nextNode st,
      st\<lparr>nodes := (nodes st)(nextNode st :=
            \<lparr>nodeType = 1, tagName = tag, attrs = Map.empty, nodeValue = [],
             parentNode = None, childNodes = []\<rparr>),
         nextNode := Suc (nextNode st)\<rparr>)"

definition createTextNode :: "string \<Rightarrow> state \<Rightarrow> nid \<times> state" where
  "createTextNode txt st =
     (nextNode st,
      st\<lparr>nodes := (nodes st)(nextNode st :=
            \<lparr>nodeType = 3, tagName = ''#text'', attrs = Map.empty, nodeValue = txt,
             parentNode = None, childNodes = []\<rparr>),
         nextNode := Suc (nextNode st)\<rparr>)"

definition createContainerElement :: "state \<Rightarrow> nid \<times> state" where
  "createContainerElement st =
     (case createDomElement ''DIV'' st of
        (element, st1) \<Rightarrow> (element, setAttribute element TYPE_ATTR TYPE_CONTAINER st1))"

text \<open>
  \<^verbatim>\<open>textContent.innerHTML = 'New text box'\<close> gives the new, empty \<^verbatim>\<open>div\<close> one text node;
  \<^verbatim>\<open>htmlContent.innerHTML = '<p>New HTML box</p>'\<close> gives it a \<^verbatim>\<open>p\<close> element that
  holds one text node.
\<close>

definition createTextElement :: "state \<Rightarrow> nid \<times> state" where
  "createTextElement st =
     (case createDomElement ''DIV'' st of (element, st1) \<Rightarrow>
      (case createDomElement ''DIV'' (setAttribute element TYPE_ATTR TYPE_TEXT st1) of
         (textContent, st2) \<Rightarrow>
      (case createTextNode ''New text box'' st2 of (t, st3) \<Rightarrow>
         (element,
          classList_add textContent ''normal''
            (classList_add textContent ELEMENT_CONTENT_CLASS_NAME
              (appendChild element textContent
                (appendChild textContent t st3)))))))"

definition createHtmlElement :: "state \<Rightarrow> nid \<times> state" where
  "createHtmlElement st =
     (case createDomElement ''DIV'' st of (element, st1) \<Rightarrow>
      (case createDomElement ''DIV'' (setAttribute element TYPE_ATTR TYPE_HTML st1) of
         (htmlContent, st2) \<Rightarrow>
      (case createDomElement ''P'' st2 of (par, st3) \<Rightarrow>
      (case createTextNode ''New HTML box'' st3 of (t, st4) \<Rightarrow>
         (element,
          classList_add htmlContent ELEMENT_CONTENT_CLASS_NAME
            (appendChild element htmlContent
              (appendChild htmlContent par
                (appendChild par t st4))))))))"

definition createImageElement :: "state \<Rightarrow> nid \<times> state" where
  "createImageElement st =
     (case createDomElement ''DIV'' st of
        (element, st1) \<Rightarrow> (element, setAttribute element TYPE_ATTR TYPE_IMAGE st1))"

definition addElement :: "nid \<Rightarrow> nid \<Rightarrow> state \<Rightarrow> state" where
  "addElement container element st =
     classList_add element JUST_ADDED_CLASS_NAME (appendChild container element st)"

text \<open>
  \<^verbatim>\<open>createElement(type)\<close>. The container is the first element of the background class
  under the body, or the body. For a type that is none of the four, \<^verbatim>\<open>element\<close> stays
  \<^verbatim>\<open>null\<close> and the first use of it throws.
\<close>

definition createElement :: "env \<Rightarrow> string \<Rightarrow> state \<Rightarrow> error + nid \<times> state" where
  "createElement env type st =
     (let container =
            (case getElementsByClass st (BACKGROUND_CLASS_NAME env) (bodyElement env) of
               [] \<Rightarrow> bodyElement env
             | c # _ \<Rightarrow> c);
          offsetX = 100 + getScrollX env;
          offsetY = 100 + getScrollY env;
          styleObject =
            [''height'' \<mapsto> ''100px'', ''width'' \<mapsto> ''100px'',
             ''top'' \<mapsto> numberToString offsetY @ ''px'',
             ''left'' \<mapsto> numberToString offsetX @ ''px''];
          created =
            (if type = TYPE_CONTAINER then
               Some (createContainerElement st, styleObject(''backgroundColor'' \<mapsto> ''#FFFFFF''))
             else if type = TYPE_TEXT then Some (createTextElement st, styleObject)
             else if type = TYPE_HTML then
               Some (createHtmlElement st, styleObject(''backgroundColor'' \<mapsto> ''#FFFFFF''))
             else if type = TYPE_IMAGE then Some (createImageElement st, styleObject)
             else None)
      in case created of
           None \<Rightarrow> Inl TypeError
         | Some ((element, st1), styleObject') \<Rightarrow>
             Inr (element,
               addElement container element
                 (classList_add element (type @ ''-element'')
                   (body_setEditable element True
                     (property_setStyle element styleObject'
                       (property_initSilexId (newSilexId env) element
                         (classList_add element (EDITABLE_CLASS_NAME env) st1)))))))"

text \<open>
  A state in which the body exists and every child that a node lists has been created:
  no node lists an address from \<^verbatim>\<open>nextNode\<close> on, so a newly created node is nobody's
  child yet.
\<close>

definition wellAllocated :: "env \<Rightarrow> state \<Rightarrow> bool" where
  "wellAllocated env st \<longleftrightarrow>
     bodyElement env < nextNode st \<and> (\<forall>n. \<forall>c\<in>set (childNodes (nodes st n)). c < nextNode st)"

section \<open>Loading an image\<close>

text \<open>
  \<^verbatim>\<open>setImageUrl\<close> returns before the image is there. What it does at once: for an
  element of type image, it creates an \<^verbatim>\<open>ImageLoader\<close>, registers the two handlers,
  marks the element as loading, removes the first \<^verbatim>\<open>img\<close> of the content class under
  the element, and starts the loader, which creates the image node (with the url as
  its \<^verbatim>\<open>id\<close> and its \<^verbatim>\<open>src\<close>). The load is then in flight. \<^verbatim>\<open>getContentNode\<close> always
  returns a node, so the test \<^verbatim>\<open>if (img)\<close> holds and its \<^verbatim>\<open>else\<close> branch is never taken.
  For any other element it reports the error and calls the error callback when there is
  one.
\<close>

definition startImageLoader :: "nid \<Rightarrow> string \<Rightarrow> cb option \<Rightarrow> cb option \<Rightarrow> state \<Rightarrow> state" where
  "startImageLoader element url opt_callback opt_errorCallback st =
     st\<lparr>nodes := (nodes st)(nextNode st :=
           \<lparr>nodeType = 1, tagName = ''IMG'', attrs = [''id'' \<mapsto> url, ''src'' \<mapsto> url],
            nodeValue = [], parentNode = None, childNodes = []\<rparr>),
        nextNode := Suc (nextNode st),
        loaders := loaders st @
          [\<lparr>ld_element = element, ld_image = nextNode st,
            ld_callback = opt_callback, ld_errorCallback = opt_errorCallback\<rparr>]\<rparr>"

definition reportError :: "string \<Rightarrow> nid \<Rightarrow> cb option \<Rightarrow> state \<Rightarrow> state" where
  "reportError msg element opt_errorCallback st =
     st\<lparr>events := events st @ [ConsoleError msg element] @
        (case opt_errorCallback of None \<Rightarrow> [] | Some f \<Rightarrow> [ErrorCallback f element msg])\<rparr>"

definition setImageUrl :: "nid \<Rightarrow> string \<Rightarrow> cb option \<Rightarrow> cb option \<Rightarrow> state \<Rightarrow> state" where
  "setImageUrl element url opt_callback opt_errorCallback st =
     (if getAttribute st element TYPE_ATTR = Some TYPE_IMAGE then
        (let st1 = classList_add element LOADING_ELEMENT_CSS_CLASS st;
             imgTags = getElementsByTagNameAndClass st1 ''IMG'' ELEMENT_CONTENT_CLASS_NAME element;
             st2 = (case imgTags of [] \<Rightarrow> st1 | t # _ \<Rightarrow> removeNode t st1)
         in startImageLoader element url opt_callback opt_errorCallback st2)
      else reportError ''The element is not an image.'' element opt_errorCallback st)"

text \<open>
  The two handlers, as the loader runs them when the load of its image ends. The
  handler of \<^verbatim>\<open>LOAD\<close> calls the callback first, then appends the image to the element,
  gives it the content class, removes its \<^verbatim>\<open>id\<close>, removes the loading class of the
  element and asks for a redraw. The handler of \<^verbatim>\<open>ERROR\<close> reports the error.
\<close>

definition onImageLoad :: "loader \<Rightarrow> state \<Rightarrow> state" where
  "onImageLoad l st =
     (let element = ld_element l;
          img = ld_image l;
          st1 = st\<lparr>events := events st @
                  (case ld_callback l of None \<Rightarrow> [] | Some f \<Rightarrow> [Callback f element img])\<rparr>;
          st2 = appendChild element img st1;
          st3 = classList_add img ELEMENT_CONTENT_CLASS_NAME st2;
          st4 = removeAttribute img ''id'' st3;
          st5 = classList_remove element LOADING_ELEMENT_CSS_CLASS st4
      in st5\<lparr>events := events st5 @ [SetSelection]\<rparr>)"

definition onImageError :: "loader \<Rightarrow> state \<Rightarrow> state" where
  "onImageError l st =
     reportError ''An error occured while loading the image.'' (ld_element l)
       (ld_errorCallback l) st"

text \<open>
  The end of a load in flight: the \<^verbatim>\<open>k\<close>-th loader (in the order of the calls that
  started them) leaves the list and its handler runs. Loads may end in any order.
\<close>

definition imageLoaded :: "nat \<Rightarrow> state \<Rightarrow> state" where
  "imageLoaded k st =
     (if k < length (loaders st)
      then onImageLoad (loaders st ! k)
             (st\<lparr>loaders := take k (loaders st) @ drop (Suc k) (loaders st)\<rparr>)
      else st)"

definition imageFailed :: "nat \<Rightarrow> state \<Rightarrow> state" where
  "imageFailed k st =
     (if k < length (loaders st)
      then onImageError (loaders st ! k)
             (st\<lparr>loaders := take k (loaders st) @ drop (Suc k) (loaders st)\<rparr>)
      else st)"

section \<open>Example stage\<close>

text \<open>
  A small stage for the concrete checks below: the body (node 0) with four elements of
  the four types as its children, in this order. Node 1 is on page1, node 2 on page1 and
  page2, node 3 on no page, node 4 on page1; page1 is the page that is open, so
  \<^verbatim>\<open>isInPage\<close> holds of the nodes whose pages include it. No file is open; the URL
  helpers and the cache-control remover return the text they are given (the texts of
  the checks hold no URL).
\<close>

definition plainNode :: node where
  "plainNode =
     \<lparr>nodeType = 1, tagName = ''DIV'', attrs = Map.empty, nodeValue = [], parentNode = None,
      childNodes = []\<rparr>"

definition typedNode :: "string \<Rightarrow> nid \<Rightarrow> node" where
  "typedNode ty p = plainNode\<lparr>attrs := [TYPE_ATTR \<mapsto> ty], parentNode := Some p\<rparr>"

definition stageState :: state where
  "stageState =
     \<lparr>nodes = (\<lambda>_. plainNode)
        (0 := plainNode\<lparr>tagName := ''BODY'', childNodes := [1, 2, 3, 4]\<rparr>,
         1 := typedNode TYPE_CONTAINER 0, 2 := typedNode TYPE_TEXT 0,
         3 := typedNode TYPE_HTML 0, 4 := typedNode TYPE_IMAGE 0),
      nextNode = 5, styleStore = Map.empty, storeWrites = [], silexIds = Map.empty,
      editable = (\<lambda>_. False), events = [], loaders = []\<rparr>"

definition stagePages :: "nid \<Rightarrow> string list" where
  "stagePages n = (if n = 1 then [''page1''] else if n = 2 then [''page1'', ''page2'']
                   else if n = 4 then [''page1''] else [])"

definition stageEnv :: env where
  "stageEnv =
     \<lparr>bodyElement = 0, fileUrl = None, baseUrl = [],
      relative2Absolute = (\<lambda>html base. html), absolute2Relative = (\<lambda>html base. html),
      removeCacheControl = (\<lambda>html. html),
      SILEX_CLASS_NAMES = [], getPages = [''page1'', ''page2''],
      isInPage = (\<lambda>n. ''page1'' \<in> set (stagePages n)), getPagesForElement = stagePages,
      BACKGROUND_CLASS_NAME = ''background'', EDITABLE_CLASS_NAME = ''editable-style'',
      getScrollX = 0, getScrollY = 0,
      newSilexId = (\<lambda>n. ''silex-id-'' @ natToString n)\<rparr>"

text \<open>
  Two calls of \<^verbatim>\<open>setImageUrl\<close> on the image element of the stage (node 4), the second
  while the load of the first is in flight; the loaders create the image nodes 5 and 6.
  Then the load of the second call ends, and after it, late, the load of the first call.
\<close>

definition twoLoads :: state where
  "twoLoads = setImageUrl 4 ''b.png'' None None (setImageUrl 4 ''a.png'' None None stageState)"

definition firstLoader :: loader where
  "firstLoader = \<lparr>ld_element = 4, ld_image = 5, ld_callback = None, ld_errorCallback = None\<rparr>"

definition secondLoader :: loader where
  "secondLoader = \<lparr>ld_element = 4, ld_image = 6, ld_callback = None, ld_errorCallback = None\<rparr>"

definition secondDone :: state where "secondDone = imageLoaded 1 twoLoads"
definition firstLate :: state where "firstLate = imageLoaded 0 secondDone"

section \<open>Properties\<close>

subsection \<open>Basic facts about the store of nodes\<close>

lemma nodes_upd_node [simp]: "nodes (upd_node n f st) = (nodes st)(n := f (nodes st n))"
  by (simp add: upd_node_def)

lemma events_upd_node [simp]: "events (upd_node n f st) = events st"
  by (simp add: upd_node_def)

lemma nextNode_upd_node [simp]: "nextNode (upd_node n f st) = nextNode st"
  by (simp add: upd_node_def)

lemma removeNode_detached: "parentNode (nodes (removeNode n st) n) = None"
  by (auto simp: removeNode_def split: option.splits)

lemma classList_remove_childNodes [simp]:
  "childNodes (nodes (classList_remove el t st) n) = childNodes (nodes st n)"
  by (auto simp: classList_remove_def setAttribute_def Let_def)

lemma classList_remove_parentNode [simp]:
  "parentNode (nodes (classList_remove el t st) n) = parentNode (nodes st n)"
  by (auto simp: classList_remove_def setAttribute_def Let_def)

lemma insertBefore_parent:
  "parentNode (nodes (insertBefore parent n child st) n) = Some parent"
  by (simp add: insertBefore_def Let_def)

lemma insertBefore_children:
  assumes "parentNode (nodes st n) = Some parent" and "parent \<noteq> n"
  shows "childNodes (nodes (insertBefore parent n child st) parent) =
     insert_before (if child = Some n then nextSibling st n else child) n
       (removeAll n (childNodes (nodes st parent)))"
  using assms by (simp add: insertBefore_def Let_def removeNode_def)

subsection \<open>Splitting, joining and class tokens\<close>

lemma split_on_nonempty [simp]: "split_on P s \<noteq> []"
  by (induction s) (auto split: list.splits)

lemma split_on_no_sep: "(\<forall>c\<in>set t. \<not> P c) \<Longrightarrow> split_on P t = [t]"
  by (induction t) auto

lemma split_on_append_sep:
  "(\<forall>c\<in>set t. \<not> P c) \<Longrightarrow> P s \<Longrightarrow> split_on P (t @ s # rest) = t # split_on P rest"
  by (induction t) auto

lemma split_on_join:
  "ts \<noteq> [] \<Longrightarrow> (\<forall>t\<in>set ts. \<forall>c\<in>set t. \<not> P c) \<Longrightarrow> P s \<Longrightarrow> split_on P (join [s] ts) = ts"
  by (induction "[s]" ts rule: join.induct) (auto simp: split_on_no_sep split_on_append_sep)

lemma split_on_pieces_all: "\<forall>t\<in>set (split_on P s). \<forall>c\<in>set t. \<not> P c"
proof (induction s)
  case Nil
  show ?case by simp
next
  case (Cons a s)
  show ?case
  proof (cases "P a")
    case True
    with Cons show ?thesis by simp
  next
    case False
    obtain w ws where w: "split_on P s = w # ws" by (cases "split_on P s") auto
    with Cons False show ?thesis by auto
  qed
qed

lemma split_on_pieces: "t \<in> set (split_on P s) \<Longrightarrow> c \<in> set t \<Longrightarrow> \<not> P c"
  using split_on_pieces_all by blast

text \<open>
  A list of class tokens as the DOM keeps it: no token twice, no empty token, no
  whitespace inside a token. Writing such a list to the \<^verbatim>\<open>class\<close> attribute and
  reading the tokens back gives the same list.
\<close>

definition okTokens :: "string list \<Rightarrow> bool" where
  "okTokens ts \<longleftrightarrow> distinct ts \<and> (\<forall>t\<in>set ts. t \<noteq> [] \<and> (\<forall>c\<in>set t. \<not> asciiWhitespace c))"

lemma okTokens_classTokens: "okTokens (classTokens s)"
  by (auto simp: okTokens_def classTokens_def dest: split_on_pieces)

lemma classTokens_join: "okTokens ts \<Longrightarrow> classTokens (join '' '' ts) = ts"
proof (cases "ts = []")
  case True
  then show ?thesis by (simp add: classTokens_def)
next
  case False
  assume ok: "okTokens ts"
  have "split_on asciiWhitespace (join '' '' ts) = ts"
    using ok False by (intro split_on_join) (auto simp: okTokens_def asciiWhitespace_def)
  moreover have "filter (\<lambda>w. w \<noteq> []) ts = ts" using ok by (auto simp: okTokens_def filter_id_conv)
  moreover have "rev (remdups (rev ts)) = ts" using ok by (simp add: okTokens_def distinct_remdups_id)
  ultimately show ?thesis by (simp add: classTokens_def)
qed

lemma classList_setAttribute_class:
  "okTokens ts \<Longrightarrow> classList (setAttribute el ''class'' (join '' '' ts) st) el = ts"
  by (simp add: classList_def className_def setAttribute_def classTokens_join)

lemma classList_classList_add:
  assumes "tok \<noteq> []" "\<forall>c\<in>set tok. \<not> asciiWhitespace c"
  shows "classList (classList_add el tok st) el =
     (if tok \<in> set (classList st el) then classList st el else classList st el @ [tok])"
proof -
  define ts where "ts = (if tok \<in> set (classList st el) then classList st el else classList st el @ [tok])"
  have "okTokens (classList st el)" by (simp add: classList_def okTokens_classTokens)
  then have "okTokens ts"
    using assms by (auto simp: okTokens_def ts_def)
  then have "classList (setAttribute el ''class'' (join '' '' ts) st) el = ts"
    by (rule classList_setAttribute_class)
  then show ?thesis
    unfolding ts_def by (simp add: classList_add_def Let_def)
qed

lemma classList_classList_remove:
  "classList (classList_remove el tok st) el = filter (\<lambda>t. t \<noteq> tok) (classList st el)"
proof -
  define ts where "ts = filter (\<lambda>t. t \<noteq> tok) (classList st el)"
  have "okTokens (classList st el)" by (simp add: classList_def okTokens_classTokens)
  then have ok': "okTokens ts"
    by (auto simp: okTokens_def ts_def)
  show ?thesis
  proof (cases "attrs (nodes st el) ''class'' = None \<and> ts = []")
    case True
    then have "classList st el = []" by (simp add: classList_def className_def classTokens_def)
    with True show ?thesis by (simp add: classList_remove_def Let_def ts_def)
  next
    case False
    then have "classList_remove el tok st = setAttribute el ''class'' (join '' '' ts) st"
      by (auto simp add: classList_remove_def Let_def ts_def)
    with ok' show ?thesis by (simp add: classList_setAttribute_class ts_def)
  qed
qed

subsection \<open>The bounds of the two walks\<close>

text \<open>
  The bound on the walk up the parent links loses nothing: in a tree every node has a
  depth that grows from parent to child, and no depth exceeds the number of nodes ever
  created; then \<^verbatim>\<open>contains\<close> is the relation of a node to its ancestors and itself.
  In the same way the bounded list of descendants does not change when the bound grows
  beyond the height of the node. The example stage is such a tree.
\<close>

lemma containsUp_sound: "containsUp k h p d \<Longrightarrow> ancestorOrSelf h p d"
proof (induction k arbitrary: d)
  case 0
  then show ?case by (simp add: ancestorOrSelf.self)
next
  case (Suc k)
  then show ?case
    by (auto split: option.splits intro: ancestorOrSelf.intros)
qed

lemma containsUp_complete:
  assumes dec: "\<And>n q. parentNode (h n) = Some q \<Longrightarrow> depth q < depth n"
  shows "ancestorOrSelf h p d \<Longrightarrow> depth d \<le> k \<Longrightarrow> containsUp k h p d"
proof (induction k arbitrary: d)
  case 0
  from "0.prems"(1) show ?case
  proof cases
    case self
    then show ?thesis by simp
  next
    case (up q)
    with dec [of d q] "0.prems"(2) show ?thesis by simp
  qed
next
  case (Suc k)
  from Suc.prems(1) show ?case
  proof cases
    case self
    then show ?thesis by simp
  next
    case (up q)
    with dec [of d q] Suc.prems(2) have "depth q \<le> k" by simp
    with up Suc.IH [of q] show ?thesis by simp
  qed
qed

lemma contains_adequate:
  assumes "\<And>n q. parentNode (nodes st n) = Some q \<Longrightarrow> depth q < depth n"
    and "\<And>n. depth n \<le> nextNode st"
  shows "contains st p d \<longleftrightarrow> ancestorOrSelf (nodes st) p d"
  unfolding contains_def
  using containsUp_sound containsUp_complete [of "nodes st" depth p d "nextNode st"] assms
  by blast

lemma contains_adequate_stage:
  "contains stageState p d \<longleftrightarrow> ancestorOrSelf (nodes stageState) p d"
proof (rule contains_adequate [where depth = "\<lambda>n. if n \<in> {1, 2, 3, 4} then 1 else 0"])
  fix n q
  assume "parentNode (nodes stageState n) = Some q"
  then show "(if q \<in> {1, 2, 3, 4} then 1 else 0) < (if n \<in> {1, 2, 3, 4} then 1 else (0::nat))"
    by (auto simp: stageState_def typedNode_def plainNode_def split: if_splits)
next
  fix n :: nat
  show "(if n \<in> {1, 2, 3, 4} then 1 else 0) \<le> nextNode stageState"
    by (simp add: stageState_def)
qed

lemma map_cons_cong:
  "\<forall>c\<in>set xs. f c = g c \<Longrightarrow> map (\<lambda>c. c # f c) xs = map (\<lambda>c. c # g c) xs"
  by (induction xs) auto

lemma descendants_step:
  assumes dec: "\<And>n c. c \<in> set (childNodes (h n)) \<Longrightarrow> height c < height n"
  shows "height n \<le> k \<Longrightarrow> descendants (Suc k) h n = descendants k h n"
proof (induction k arbitrary: n)
  case 0
  with dec [of _ n] have "childNodes (h n) = []"
    by (cases "childNodes (h n)") auto
  then show ?case by simp
next
  case (Suc k)
  have "\<forall>c\<in>set (childNodes (h n)). descendants (Suc k) h c = descendants k h c"
  proof
    fix c assume c: "c \<in> set (childNodes (h n))"
    with dec [of c n] Suc.prems have "height c \<le> k" by simp
    then show "descendants (Suc k) h c = descendants k h c" by (rule Suc.IH)
  qed
  then have m: "map (\<lambda>c. c # descendants (Suc k) h c) (childNodes (h n)) =
             map (\<lambda>c. c # descendants k h c) (childNodes (h n))"
    by (rule map_cons_cong)
  have "descendants (Suc (Suc k)) h n =
      concat (map (\<lambda>c. c # descendants (Suc k) h c) (childNodes (h n)))"
    by (rule descendants.simps(2))
  also have "\<dots> = concat (map (\<lambda>c. c # descendants k h c) (childNodes (h n)))"
    by (simp only: m)
  also have "\<dots> = descendants (Suc k) h n"
    by (rule descendants.simps(2) [symmetric])
  finally show ?case .
qed

lemma descendants_enough_fuel:
  assumes dec: "\<And>n c. c \<in> set (childNodes (h n)) \<Longrightarrow> height c < height n"
    and "height n \<le> k"
  shows "descendants (k + j) h n = descendants k h n"
proof (induction j)
  case 0
  show ?case by simp
next
  case (Suc j)
  have "height n \<le> k + j" using assms(2) by simp
  then have "descendants (Suc (k + j)) h n = descendants (k + j) h n"
    using dec by (rule descendants_step [rotated])
  with Suc show ?case by simp
qed

subsection \<open>Removal\<close>

lemma contains_has_parent:
  "containsUp k h b d \<Longrightarrow> d \<noteq> b \<Longrightarrow> \<exists>p. parentNode (h d) = Some p"
  by (cases k) (auto split: option.splits)

text \<open>
  C7. \<^verbatim>\<open>removeElement\<close> takes a node out of the tree only when the node is not the body
  and the body contains it. Otherwise (the node is the body, or it is not under the
  body) the store of nodes is left as it was and the refusal is written to
  \<^verbatim>\<open>console.error\<close>. When the node is removed it has no parent afterwards, its former
  parent no longer lists it, every other node is untouched, and nothing is reported.
\<close>

theorem removeElement_guarded:
  "(element = bodyElement env \<or> \<not> contains st (bodyElement env) element \<longrightarrow>
      nodes (removeElement env element st) = nodes st
      \<and> events (removeElement env element st) =
          events st @ [ConsoleError ''could not delete because it is not in the stage element'' element])
   \<and> (element \<noteq> bodyElement env \<and> contains st (bodyElement env) element \<longrightarrow>
      (\<exists>p. parentNode (nodes st element) = Some p
           \<and> element \<notin> set (childNodes (nodes (removeElement env element st) p))
           \<and> (\<forall>m. m \<noteq> element \<and> m \<noteq> p \<longrightarrow> nodes (removeElement env element st) m = nodes st m))
      \<and> parentNode (nodes (removeElement env element st) element) = None
      \<and> events (removeElement env element st) = events st)"
proof (intro conjI impI)
  assume g: "element \<noteq> bodyElement env \<and> contains st (bodyElement env) element"
  then obtain p where p: "parentNode (nodes st element) = Some p"
    using contains_has_parent [of "nextNode st" "nodes st" "bodyElement env" element]
    by (auto simp: contains_def)
  from g have r: "removeElement env element st = removeNode element st"
    by (auto simp: removeElement_def)
  show "\<exists>p. parentNode (nodes st element) = Some p
           \<and> element \<notin> set (childNodes (nodes (removeElement env element st) p))
           \<and> (\<forall>m. m \<noteq> element \<and> m \<noteq> p \<longrightarrow> nodes (removeElement env element st) m = nodes st m)"
    using p r by (auto simp: removeNode_def)
  show "parentNode (nodes (removeElement env element st) element) = None"
    using r by (simp add: removeNode_detached)
  show "events (removeElement env element st) = events st"
    using r by (simp add: removeNode_def split: option.splits)
qed (auto simp: removeElement_def)

text \<open>
  On the example stage: removing the body (node 0) changes no node and reports the
  refusal; removing node 3 detaches it and leaves the body with children 1, 2, 4.
\<close>

theorem removeElement_guarded_witness:
  "nodes (removeElement stageEnv 0 stageState) = nodes stageState
   \<and> events (removeElement stageEnv 0 stageState) =
       [ConsoleError ''could not delete because it is not in the stage element'' 0]
   \<and> parentNode (nodes (removeElement stageEnv 3 stageState) 3) = None
   \<and> childNodes (nodes (removeElement stageEnv 3 stageState) 0) = [1, 2, 4]"
proof -
  have b: "bodyElement stageEnv = 0" by (simp add: stageEnv_def)
  have c: "contains stageState 0 3"
    by (simp add: contains_def stageState_def typedNode_def plainNode_def eval_nat_numeral)
  have e: "events stageState = []" by (simp add: stageState_def)
  have k: "childNodes (nodes (removeElement stageEnv 3 stageState) 0) = [1, 2, 4]"
    using b c
    by (simp add: removeElement_def removeNode_def stageState_def typedNode_def plainNode_def)
  show ?thesis
    using removeElement_guarded [of 0 stageEnv stageState]
      removeElement_guarded [of 3 stageEnv stageState] b c e k by simp
qed

subsection \<open>Visible siblings\<close>

text \<open>
  C2 (as the code has it). Let a parent have exactly the children a, b, c, d in document
  order, four different element nodes that all carry the type attribute, with a, b and d
  on the open page and c on no page. Then \<^verbatim>\<open>getNextElement(a)\<close> is b,
  \<^verbatim>\<open>getNextElement(d)\<close> is \<^verbatim>\<open>null\<close>, and \<^verbatim>\<open>getPreviousElement(d)\<close> is c: a node that is
  on no page is visible everywhere, so it is a candidate of the scan like the nodes of
  the open page.
\<close>

theorem visible_siblings_example:
  assumes "parentNode (nodes st a) = Some p" and "parentNode (nodes st d) = Some p"
    and "childNodes (nodes st p) = [a, b, c, d]" and "distinct [a, b, c, d]"
    and "\<forall>x \<in> {a, b, c, d}. nodeType (nodes st x) = 1 \<and> getType st x \<noteq> None"
    and "isInPage env a" and "isInPage env b" and "isInPage env d"
    and "getPagesForElement env c = []"
  shows "getNextElement env st a = Inr (Some b)
     \<and> getPreviousElement env st d = Inr (Some c)
     \<and> getNextElement env st d = Inr None"
  using assms by (auto simp: getNextElement_def getPreviousElement_def)

theorem visible_siblings_example_witness:
  "getNextElement stageEnv stageState 1 = Inr (Some 2)
   \<and> getPreviousElement stageEnv stageState 4 = Inr (Some 3)
   \<and> getNextElement stageEnv stageState 4 = Inr None"
  by (rule visible_siblings_example [of stageState 1 0 4 2 3 stageEnv])
    (simp_all add: stageState_def stageEnv_def stagePages_def typedNode_def plainNode_def
      getType_def getAttribute_def)

text \<open>
  The claim as stated (the visible predecessor of the last node is the second node, the
  page-less third node being skipped) fails on the example stage: the scan returns
  node 3.
\<close>

theorem previous_visible_counterexample:
  "\<not> (getNextElement stageEnv stageState 1 = Inr (Some 2)
      \<and> getPreviousElement stageEnv stageState 4 = Inr (Some 2)
      \<and> getNextElement stageEnv stageState 4 = Inr None)"
  by (simp add: getPreviousElement_def stageState_def stageEnv_def stagePages_def
      typedNode_def plainNode_def getType_def getAttribute_def)

subsection \<open>Moving to the top and to the bottom\<close>

lemma insert_before_front:
  assumes "n \<notin> set r"
    and "f = (case r @ [n] of [] \<Rightarrow> None | c # _ \<Rightarrow> Some c)"
    and "s = (case dropWhile (\<lambda>c. c \<noteq> n) (r @ [n]) of _ # s # _ \<Rightarrow> Some s | _ \<Rightarrow> None)"
  shows "insert_before (if f = Some n then s else f) n (removeAll n (r @ [n])) = n # r"
proof (cases r)
  case Nil
  with assms show ?thesis by (simp add: insert_before_def)
next
  case (Cons x r')
  with assms have "x \<noteq> n" and "removeAll n r = r" by auto
  with Cons assms show ?thesis by (simp add: insert_before_def)
qed

text \<open>
  C9. For a node with a parent (a node is not its own parent), \<^verbatim>\<open>move(node, TOP)\<close>
  followed by \<^verbatim>\<open>move(node, BOTTOM)\<close> both return, and afterwards the node is the first of
  its parent's children, whatever its position was before; the other children follow in
  their former order.
\<close>

theorem move_top_then_bottom:
  assumes par: "parentNode (nodes st element) = Some parent" and ne: "parent \<noteq> element"
  shows "\<exists>st1 st2. move env element TOP st = Inr st1 \<and> move env element BOTTOM st1 = Inr st2
      \<and> parentNode (nodes st2 element) = Some parent
      \<and> firstChild st2 parent = Some element
      \<and> childNodes (nodes st2 parent) = element # removeAll element (childNodes (nodes st parent))"
proof -
  define r where "r = removeAll element (childNodes (nodes st parent))"
  define st1 where
    "st1 = classList_remove element JUST_ADDED_CLASS_NAME (appendChild parent element st)"
  define st2 where
    "st2 = classList_remove element JUST_ADDED_CLASS_NAME
       (insertBefore parent element (firstChild st1 parent) st1)"
  have notin: "element \<notin> set r" by (simp add: r_def)
  have m1: "move env element TOP st = Inr st1"
    using par by (simp add: move_def withParent_def st1_def)
  have p1: "parentNode (nodes st1 element) = Some parent"
    by (simp add: st1_def appendChild_def insertBefore_parent)
  have c1: "childNodes (nodes st1 parent) = r @ [element]"
    using par ne
    by (simp add: st1_def appendChild_def insertBefore_children insert_before_def r_def)
  have m2: "move env element BOTTOM st1 = Inr st2"
    using p1 by (simp add: move_def withParent_def st2_def)
  have p2: "parentNode (nodes st2 element) = Some parent"
    by (simp add: st2_def insertBefore_parent)
  have "childNodes (nodes st2 parent) =
      insert_before (if firstChild st1 parent = Some element then nextSibling st1 element
                     else firstChild st1 parent) element (removeAll element (r @ [element]))"
    using p1 ne by (simp add: st2_def insertBefore_children c1)
  also have "\<dots> = element # r"
    by (rule insert_before_front [OF notin]) (simp_all add: firstChild_def nextSibling_def p1 c1)
  finally have c2: "childNodes (nodes st2 parent) = element # r" .
  then have f2: "firstChild st2 parent = Some element" by (simp add: firstChild_def)
  from m1 m2 p2 f2 c2 show ?thesis unfolding r_def by blast
qed

text \<open>On the example stage, node 2 ends up first: the body's children are 2, 1, 3, 4.\<close>

theorem move_top_then_bottom_witness:
  "\<exists>st1 st2. move stageEnv 2 TOP stageState = Inr st1 \<and> move stageEnv 2 BOTTOM st1 = Inr st2
      \<and> parentNode (nodes st2 2) = Some 0
      \<and> firstChild st2 0 = Some 2
      \<and> childNodes (nodes st2 0) = [2, 1, 3, 4]"
  using move_top_then_bottom [of stageState 2 0 stageEnv]
  by (simp add: stageState_def typedNode_def plainNode_def)

subsection \<open>Effects of the DOM operations\<close>

lemma setAttribute_nodes:
  "nodes (setAttribute el name v st) = (nodes st)(el := (nodes st el)\<lparr>attrs := (attrs (nodes st el))(name \<mapsto> v)\<rparr>)"
  by (simp add: setAttribute_def)

lemma setAttribute_frame [simp]:
  "childNodes (nodes (setAttribute el name v st) n) = childNodes (nodes st n)"
  "parentNode (nodes (setAttribute el name v st) n) = parentNode (nodes st n)"
  "nodeType (nodes (setAttribute el name v st) n) = nodeType (nodes st n)"
  "tagName (nodes (setAttribute el name v st) n) = tagName (nodes st n)"
  "nextNode (setAttribute el name v st) = nextNode st"
  "loaders (setAttribute el name v st) = loaders st"
  "events (setAttribute el name v st) = events st"
  by (simp_all add: setAttribute_def upd_node_def)

lemma setAttribute_attrs:
  "attrs (nodes (setAttribute el name v st) n) k =
     (if n = el \<and> k = name then Some v else attrs (nodes st n) k)"
  by (simp add: setAttribute_def)

lemma classList_add_frame [simp]:
  "childNodes (nodes (classList_add el tok st) n) = childNodes (nodes st n)"
  "parentNode (nodes (classList_add el tok st) n) = parentNode (nodes st n)"
  "nodeType (nodes (classList_add el tok st) n) = nodeType (nodes st n)"
  "tagName (nodes (classList_add el tok st) n) = tagName (nodes st n)"
  "nextNode (classList_add el tok st) = nextNode st"
  "loaders (classList_add el tok st) = loaders st"
  "events (classList_add el tok st) = events st"
  by (simp_all add: classList_add_def Let_def)

lemma classList_add_attrs:
  "k \<noteq> ''class'' \<or> n \<noteq> el \<Longrightarrow> attrs (nodes (classList_add el tok st) n) k = attrs (nodes st n) k"
  by (auto simp add: classList_add_def Let_def setAttribute_attrs)

lemma classList_remove_frame [simp]:
  "nodeType (nodes (classList_remove el tok st) n) = nodeType (nodes st n)"
  "tagName (nodes (classList_remove el tok st) n) = tagName (nodes st n)"
  "nextNode (classList_remove el tok st) = nextNode st"
  "loaders (classList_remove el tok st) = loaders st"
  "events (classList_remove el tok st) = events st"
  by (simp_all add: classList_remove_def Let_def)

lemma classList_remove_attrs:
  "k \<noteq> ''class'' \<or> n \<noteq> el \<Longrightarrow> attrs (nodes (classList_remove el tok st) n) k = attrs (nodes st n) k"
  by (auto simp add: classList_remove_def Let_def setAttribute_attrs)

lemma classList_other:
  "n \<noteq> el \<Longrightarrow> classList (classList_add el tok st) n = classList st n"
  "n \<noteq> el \<Longrightarrow> classList (classList_remove el tok st) n = classList st n"
  by (simp_all add: classList_def className_def classList_add_attrs classList_remove_attrs)

lemma classList_cong_attrs:
  "attrs (nodes st' n) ''class'' = attrs (nodes st n) ''class'' \<Longrightarrow> classList st' n = classList st n"
  by (simp add: classList_def className_def)

lemma removeNode_no_parent: "parentNode (nodes st n) = None \<Longrightarrow> removeNode n st = st"
  by (simp add: removeNode_def)

lemma appendChild_detached:
  assumes "parentNode (nodes st n) = None" and "parent \<noteq> n"
  shows "nodes (appendChild parent n st) =
     (nodes st)(parent := (nodes st parent)\<lparr>childNodes := childNodes (nodes st parent) @ [n]\<rparr>,
                n := (nodes st n)\<lparr>parentNode := Some parent\<rparr>)"
  using assms by (simp add: appendChild_def insertBefore_def Let_def removeNode_no_parent insert_before_def)

lemma appendChild_frame [simp]:
  "nextNode (appendChild parent n st) = nextNode st"
  "loaders (appendChild parent n st) = loaders st"
  "events (appendChild parent n st) = events st"
  by (simp_all add: appendChild_def insertBefore_def Let_def removeNode_def upd_node_def split: option.splits)

lemma descendants_allocated:
  "(\<forall>n. \<forall>c\<in>set (childNodes (h n)). c < m) \<Longrightarrow> \<forall>d\<in>set (descendants k h n). d < m"
  by (induction k arbitrary: n) auto

lemma descendants_leaf: "childNodes (h n) = [] \<Longrightarrow> descendants k h n = []"
  by (cases k) auto

lemma descendants_single_leaf:
  "childNodes (h n) = [c] \<Longrightarrow> childNodes (h c) = [] \<Longrightarrow> descendants (Suc k) h n = [c]"
  by (simp add: descendants_leaf)

lemma concat_leaves: "\<forall>c\<in>set cs. f c = [] \<Longrightarrow> concat (map (\<lambda>c. c # f c) cs) = cs"
  by (induction cs) auto

lemma descendants_leaves:
  assumes "\<forall>c\<in>set (childNodes (h n)). childNodes (h c) = []" and "0 < k"
  shows "descendants k h n = childNodes (h n)"
proof -
  obtain j where k: "k = Suc j" using assms(2) by (cases k) auto
  have "\<forall>c\<in>set (childNodes (h n)). descendants j h c = []"
    using assms(1) by (simp add: descendants_leaf)
  then show ?thesis by (simp add: k concat_leaves)
qed

lemma container_allocated:
  assumes "wellAllocated env st"
  shows "(case getElementsByClass st cls (bodyElement env) of [] \<Rightarrow> bodyElement env | c # _ \<Rightarrow> c) < nextNode st"
proof (cases "getElementsByClass st cls (bodyElement env)")
  case Nil
  with assms show ?thesis by (simp add: wellAllocated_def)
next
  case (Cons c cs)
  then have "c \<in> set (getElementsByClass st cls (bodyElement env))" by simp
  then have "c \<in> set (descendants (nextNode st) (nodes st) (bodyElement env))"
    by (simp add: getElementsByClass_def)
  with assms Cons show ?thesis
    using descendants_allocated [of "nodes st" "nextNode st" "nextNode st" "bodyElement env"]
    by (auto simp: wellAllocated_def)
qed

subsection \<open>Creating an image element and loading its image\<close>

lemma createElement_image:
  assumes wa: "wellAllocated env st"
  shows "\<exists>st1. createElement env TYPE_IMAGE st = Inr (nextNode st, st1)
     \<and> nextNode st1 = Suc (nextNode st)
     \<and> getType st1 (nextNode st) = Some TYPE_IMAGE
     \<and> childNodes (nodes st1 (nextNode st)) = []
     \<and> nodeType (nodes st1 (nextNode st)) = 1
     \<and> loaders st1 = loaders st \<and> events st1 = events st"
proof -
  define e where "e = nextNode st"
  define container where "container =
     (case getElementsByClass st (BACKGROUND_CLASS_NAME env) (bodyElement env) of
               [] \<Rightarrow> bodyElement env | c # _ \<Rightarrow> c)"
  have ce: "container \<noteq> e"
    using container_allocated [OF wa, of "BACKGROUND_CLASS_NAME env"] by (simp add: container_def e_def)
  obtain so where so: "so = [''height'' \<mapsto> ''100px'', ''width'' \<mapsto> ''100px'',
             ''top'' \<mapsto> numberToString (100 + getScrollY env) @ ''px'',
             ''left'' \<mapsto> numberToString (100 + getScrollX env) @ ''px'']" by simp
  define st0 where "st0 = snd (createImageElement st)"
  have ci: "createImageElement st = (e, st0)"
    by (simp add: createImageElement_def createDomElement_def st0_def e_def)
  define sta where "sta = body_setEditable e True
                     (property_setStyle e so
                       (property_initSilexId (newSilexId env) e
                         (classList_add e (EDITABLE_CLASS_NAME env) st0)))"
  define st1 where "st1 = addElement container e (classList_add e (TYPE_IMAGE @ ''-element'') sta)"
  have r: "createElement env TYPE_IMAGE st = Inr (e, st1)"
    unfolding createElement_def Let_def
    by (simp add: ci st1_def sta_def so container_def TYPE_IMAGE_def TYPE_CONTAINER_def TYPE_TEXT_def TYPE_HTML_def)
  have n0: "nodes st0 e = \<lparr>nodeType = 1, tagName = ''DIV'', attrs = [TYPE_ATTR \<mapsto> TYPE_IMAGE], nodeValue = [],
             parentNode = None, childNodes = []\<rparr>" and x0: "nextNode st0 = Suc e"
     and l0: "loaders st0 = loaders st" "events st0 = events st"
    by (simp_all add: st0_def createImageElement_def createDomElement_def setAttribute_def upd_node_def e_def)
  have na: "nodes sta = nodes (classList_add e (EDITABLE_CLASS_NAME env) st0)"
     and xa: "nextNode sta = Suc e" and la: "loaders sta = loaders st" "events sta = events st"
    by (simp_all add: sta_def body_setEditable_def property_setStyle_def property_initSilexId_def x0 l0)
  define stb where "stb = classList_add e (TYPE_IMAGE @ ''-element'') sta"
  have pb: "parentNode (nodes stb e) = None" and cb: "childNodes (nodes stb e) = []"
    and tb: "attrs (nodes stb e) TYPE_ATTR = Some TYPE_IMAGE" and yb: "nodeType (nodes stb e) = 1"
    by (simp_all add: stb_def na n0 classList_add_attrs TYPE_ATTR_def)
  have xb: "nextNode stb = Suc e" "loaders stb = loaders st" "events stb = events st"
    by (simp_all add: stb_def xa la)
  have nb: "nodes (appendChild container e stb) =
     (nodes stb)(container := (nodes stb container)\<lparr>childNodes := childNodes (nodes stb container) @ [e]\<rparr>,
                e := (nodes stb e)\<lparr>parentNode := Some container\<rparr>)"
    using pb ce by (rule appendChild_detached)
  have "st1 = classList_add e JUST_ADDED_CLASS_NAME (appendChild container e stb)"
    by (simp add: st1_def addElement_def stb_def)
  then have "nextNode st1 = Suc e" "getType st1 e = Some TYPE_IMAGE" "childNodes (nodes st1 e) = []"
    "nodeType (nodes st1 e) = 1" "loaders st1 = loaders st" "events st1 = events st"
    using ce cb tb yb xb
    by (simp_all add: nb getType_def getAttribute_def classList_add_attrs TYPE_ATTR_def)
  with r show ?thesis unfolding e_def by blast
qed


lemma setImageUrl_leaf:
  assumes ty: "getType st e = Some TYPE_IMAGE" and leaf: "childNodes (nodes st e) = []"
  shows "setImageUrl e url cbk ecb st =
     startImageLoader e url cbk ecb (classList_add e LOADING_ELEMENT_CSS_CLASS st)"
proof -
  have "getElementsByTagNameAndClass (classList_add e LOADING_ELEMENT_CSS_CLASS st) ''IMG''
          ELEMENT_CONTENT_CLASS_NAME e = []"
    using leaf by (simp add: getElementsByTagNameAndClass_def descendants_leaf)
  with ty show ?thesis
    by (simp add: setImageUrl_def Let_def getType_def)
qed

lemma onImageLoad_effect:
  assumes det: "parentNode (nodes st (ld_image l)) = None"
    and ne: "ld_image l \<noteq> ld_element l"
  shows "childNodes (nodes (onImageLoad l st) (ld_element l)) =
           childNodes (nodes st (ld_element l)) @ [ld_image l]"
    and "childNodes (nodes (onImageLoad l st) (ld_image l)) = childNodes (nodes st (ld_image l))"
    and "parentNode (nodes (onImageLoad l st) (ld_image l)) = Some (ld_element l)"
    and "ELEMENT_CONTENT_CLASS_NAME \<in> set (classList (onImageLoad l st) (ld_image l))"
    and "attrs (nodes (onImageLoad l st) (ld_image l)) ''id'' = None"
    and "k \<noteq> ''id'' \<Longrightarrow> k \<noteq> ''class'' \<Longrightarrow>
           attrs (nodes (onImageLoad l st) (ld_image l)) k = attrs (nodes st (ld_image l)) k"
    and "k \<noteq> ''class'' \<Longrightarrow>
           attrs (nodes (onImageLoad l st) (ld_element l)) k = attrs (nodes st (ld_element l)) k"
    and "nodeType (nodes (onImageLoad l st) n) = nodeType (nodes st n)"
    and "tagName (nodes (onImageLoad l st) n) = tagName (nodes st n)"
    and "LOADING_ELEMENT_CSS_CLASS \<notin> set (classList (onImageLoad l st) (ld_element l))"
    and "nextNode (onImageLoad l st) = nextNode st"
    and "loaders (onImageLoad l st) = loaders st"
    and "n \<noteq> ld_element l \<Longrightarrow> n \<noteq> ld_image l \<Longrightarrow> nodes (onImageLoad l st) n = nodes st n"
    and "events (onImageLoad l st) = events st @
           (case ld_callback l of None \<Rightarrow> []
            | Some f \<Rightarrow> [Callback f (ld_element l) (ld_image l)]) @ [SetSelection]"
proof -
  define e where "e = ld_element l"
  define i where "i = ld_image l"
  define st1 where "st1 = st\<lparr>events := events st @
                  (case ld_callback l of None \<Rightarrow> []
                   | Some f \<Rightarrow> [Callback f (ld_element l) (ld_image l)])\<rparr>"
  define st2 where "st2 = appendChild e i st1"
  define st3 where "st3 = classList_add i ELEMENT_CONTENT_CLASS_NAME st2"
  define st4 where "st4 = removeAttribute i ''id'' st3"
  define st5 where "st5 = classList_remove e LOADING_ELEMENT_CSS_CLASS st4"
  have res: "onImageLoad l st = st5\<lparr>events := events st5 @ [SetSelection]\<rparr>"
    by (simp add: onImageLoad_def Let_def st5_def st4_def st3_def st2_def st1_def e_def i_def)
  have n1: "nodes st1 = nodes st" by (simp add: st1_def)
  have n2: "nodes st2 = (nodes st)(e := (nodes st e)\<lparr>childNodes := childNodes (nodes st e) @ [i]\<rparr>,
                i := (nodes st i)\<lparr>parentNode := Some e\<rparr>)"
    unfolding st2_def using det ne n1
    by (subst appendChild_detached) (auto simp: e_def i_def)
  have ok: "ELEMENT_CONTENT_CLASS_NAME \<noteq> [] \<and> (\<forall>c\<in>set ELEMENT_CONTENT_CLASS_NAME. \<not> asciiWhitespace c)"
    by (simp add: ELEMENT_CONTENT_CLASS_NAME_def asciiWhitespace_def)
  have c3: "ELEMENT_CONTENT_CLASS_NAME \<in> set (classList st3 i)"
    unfolding st3_def using ok by (simp add: classList_classList_add)
  have c4: "classList st4 i = classList st3 i"
    by (rule classList_cong_attrs) (simp add: st4_def removeAttribute_def)
  have c5: "classList st5 i = classList st4 i"
    unfolding st5_def using ne by (simp add: classList_other e_def i_def)
  have cl: "classList (st5\<lparr>events := events st5 @ [SetSelection]\<rparr>) = classList st5"
    by (intro ext) (simp add: classList_def className_def)
  show "childNodes (nodes (onImageLoad l st) (ld_element l)) =
           childNodes (nodes st (ld_element l)) @ [ld_image l]"
    using ne by (simp add: res st5_def st4_def st3_def n2 removeAttribute_def i_def e_def)
  show "childNodes (nodes (onImageLoad l st) (ld_image l)) = childNodes (nodes st (ld_image l))"
    using ne by (simp add: res st5_def st4_def st3_def n2 removeAttribute_def i_def e_def)
  show "parentNode (nodes (onImageLoad l st) (ld_image l)) = Some (ld_element l)"
    using ne by (simp add: res st5_def st4_def st3_def n2 removeAttribute_def i_def e_def)
  show "ELEMENT_CONTENT_CLASS_NAME \<in> set (classList (onImageLoad l st) (ld_image l))"
    using c3 c4 c5 by (simp add: res cl i_def)
  have a5: "\<And>k. k \<noteq> ''class'' \<or> i \<noteq> e \<Longrightarrow> attrs (nodes st5 i) k = attrs (nodes st4 i) k"
    unfolding st5_def by (rule classList_remove_attrs) auto
  have a4: "\<And>k. attrs (nodes st4 i) k = (if k = ''id'' then None else attrs (nodes st3 i) k)"
    by (simp add: st4_def removeAttribute_def)
  have a3: "\<And>k. k \<noteq> ''class'' \<Longrightarrow> attrs (nodes st3 i) k = attrs (nodes st i) k"
    using ne by (simp add: st3_def classList_add_attrs n2 e_def i_def)
  show "attrs (nodes (onImageLoad l st) (ld_image l)) ''id'' = None"
    using a5 [of "''id''"] a4 [of "''id''"] by (simp add: res i_def)
  show "attrs (nodes (onImageLoad l st) (ld_image l)) k = attrs (nodes st (ld_image l)) k"
    if "k \<noteq> ''id''" "k \<noteq> ''class''"
    using that a5 [of k] a4 [of k] a3 [of k] by (simp add: res i_def)
  show "attrs (nodes (onImageLoad l st) (ld_element l)) k = attrs (nodes st (ld_element l)) k"
    if "k \<noteq> ''class''"
  proof -
    have "attrs (nodes st5 e) k = attrs (nodes st4 e) k"
      unfolding st5_def using that by (intro classList_remove_attrs) simp
    also have "\<dots> = attrs (nodes st3 e) k"
      using ne by (simp add: st4_def removeAttribute_def e_def i_def)
    also have "\<dots> = attrs (nodes st2 e) k"
      unfolding st3_def using that by (intro classList_add_attrs) simp
    also have "\<dots> = attrs (nodes st e) k"
      using ne by (simp add: n2 e_def i_def)
    finally show ?thesis by (simp add: res e_def)
  qed
  show "nodeType (nodes (onImageLoad l st) n) = nodeType (nodes st n)"
    by (simp add: res st5_def st4_def st3_def n2 removeAttribute_def)
  show "tagName (nodes (onImageLoad l st) n) = tagName (nodes st n)"
    by (simp add: res st5_def st4_def st3_def n2 removeAttribute_def)
  have "LOADING_ELEMENT_CSS_CLASS \<notin> set (classList st5 e)"
    by (simp add: st5_def classList_classList_remove)
  then show "LOADING_ELEMENT_CSS_CLASS \<notin> set (classList (onImageLoad l st) (ld_element l))"
    by (simp add: res cl e_def)
  show "nextNode (onImageLoad l st) = nextNode st"
    by (simp add: res st5_def st4_def st3_def st2_def st1_def removeAttribute_def)
  show "loaders (onImageLoad l st) = loaders st"
    by (simp add: res st5_def st4_def st3_def st2_def st1_def removeAttribute_def upd_node_def)
  show "nodes (onImageLoad l st) n = nodes st n" if "n \<noteq> ld_element l" "n \<noteq> ld_image l"
    using that
    by (simp add: res st5_def st4_def st3_def n2 removeAttribute_def e_def i_def
        classList_add_def classList_remove_def setAttribute_def Let_def)
  show "events (onImageLoad l st) = events st @
           (case ld_callback l of None \<Rightarrow> []
            | Some f \<Rightarrow> [Callback f (ld_element l) (ld_image l)]) @ [SetSelection]"
    by (simp add: res st5_def st4_def st3_def st2_def st1_def removeAttribute_def)
qed

text \<open>
  C4. In a state where the body exists and every listed child has been created,
  \<^verbatim>\<open>createElement('image')\<close> returns a new element, and when \<^verbatim>\<open>setImageUrl\<close> is called on
  it and the load ends with success, then: the content node of the element is the image
  node that the loader created (an \<^verbatim>\<open>IMG\<close> with the url as its \<^verbatim>\<open>src\<close>), that node
  carries the content class and has lost the \<^verbatim>\<open>id\<close> the loader gave it, the element no
  longer carries the loading class, its type is still \<^verbatim>\<open>image\<close>, and what was recorded
  in between is the call of the success callback (when one was given) with the element
  and the image, followed by the redraw request.
\<close>

theorem create_image_then_load:
  assumes wa: "wellAllocated env st"
  shows "\<exists>st1 st3. createElement env TYPE_IMAGE st = Inr (nextNode st, st1)
     \<and> imageLoaded (length (loaders st))
          (setImageUrl (nextNode st) url opt_callback opt_errorCallback st1) = st3
     \<and> getContentNode st3 (nextNode st) = Suc (nextNode st)
     \<and> tagName (nodes st3 (Suc (nextNode st))) = ''IMG''
     \<and> attrs (nodes st3 (Suc (nextNode st))) ''src'' = Some url
     \<and> attrs (nodes st3 (Suc (nextNode st))) ''id'' = None
     \<and> hasClass st3 ELEMENT_CONTENT_CLASS_NAME (Suc (nextNode st))
     \<and> LOADING_ELEMENT_CSS_CLASS \<notin> set (classList st3 (nextNode st))
     \<and> getType st3 (nextNode st) = Some TYPE_IMAGE
     \<and> events st3 = events st @
          (case opt_callback of None \<Rightarrow> []
           | Some f \<Rightarrow> [Callback f (nextNode st) (Suc (nextNode st))]) @ [SetSelection]"
proof -
  define e where "e = nextNode st"
  define i where "i = Suc e"
  from createElement_image [OF wa] obtain st1 where
    cr: "createElement env TYPE_IMAGE st = Inr (e, st1)" and x1: "nextNode st1 = i"
    and t1: "getType st1 e = Some TYPE_IMAGE" and k1: "childNodes (nodes st1 e) = []"
    and y1: "nodeType (nodes st1 e) = 1"
    and lo1: "loaders st1 = loaders st" and ev1: "events st1 = events st"
    unfolding e_def i_def by blast
  define l where "l = \<lparr>ld_element = e, ld_image = i, ld_callback = opt_callback,
                       ld_errorCallback = opt_errorCallback\<rparr>"
  define sa where "sa = classList_add e LOADING_ELEMENT_CSS_CLASS st1"
  define st2 where "st2 = setImageUrl e url opt_callback opt_errorCallback st1"
  have s2: "st2 = startImageLoader e url opt_callback opt_errorCallback sa"
    unfolding st2_def sa_def using t1 k1 by (rule setImageUrl_leaf)
  have ei: "i \<noteq> e" by (simp add: i_def)
  define sb where "sb = st2\<lparr>loaders := take (length (loaders st1)) (loaders st2) @
                                 drop (Suc (length (loaders st1))) (loaders st2)\<rparr>"
  have l2: "loaders st2 = loaders st1 @ [l]"
    by (simp add: s2 startImageLoader_def sa_def x1 l_def)
  have il: "imageLoaded (length (loaders st1)) st2 = onImageLoad l sb"
    by (simp add: imageLoaded_def l2 sb_def)
  have nb: "nodes sb = (nodes sa)(i := \<lparr>nodeType = 1, tagName = ''IMG'',
            attrs = [''id'' \<mapsto> url, ''src'' \<mapsto> url],
            nodeValue = [], parentNode = None, childNodes = []\<rparr>)"
    and xb: "nextNode sb = Suc i" and eb: "events sb = events st1"
    by (simp_all add: sb_def s2 startImageLoader_def sa_def x1)
  have det: "parentNode (nodes sb (ld_image l)) = None" and ne: "ld_image l \<noteq> ld_element l"
    using ei by (simp_all add: nb l_def)
  define st3 where "st3 = onImageLoad l sb"
  note eff = onImageLoad_effect [OF det ne, folded st3_def]
  have ce: "childNodes (nodes st3 e) = [i]"
    using eff(1) ei k1 by (simp add: l_def nb sa_def)
  have ci: "childNodes (nodes st3 i) = []"
    using eff(2) by (simp add: l_def nb)
  have ti: "nodeType (nodes st3 i) = 1" "tagName (nodes st3 i) = ''IMG''"
    using eff(8) [of i] eff(9) [of i] by (simp_all add: nb)
  have hc: "hasClass st3 ELEMENT_CONTENT_CLASS_NAME i"
    using eff(4) ti by (simp add: hasClass_def l_def)
  have x3: "nextNode st3 = Suc i" using eff(11) xb by simp
  have "descendants (nextNode st3) (nodes st3) e = [i]"
    unfolding x3 using ce ci by (rule descendants_single_leaf)
  then have gc: "getContentNode st3 e = i"
    using hc by (simp add: getContentNode_def getElementsByClass_def)
  have src: "attrs (nodes st3 i) ''src'' = Some url"
    using eff(6) [of "''src''"] by (simp add: l_def nb)
  have idn: "attrs (nodes st3 i) ''id'' = None"
    using eff(5) by (simp add: l_def)
  have ld: "LOADING_ELEMENT_CSS_CLASS \<notin> set (classList st3 e)"
    using eff(10) by (simp add: l_def)
  have "attrs (nodes st3 e) TYPE_ATTR = attrs (nodes sb e) TYPE_ATTR"
    using eff(7) [of TYPE_ATTR] by (simp add: l_def TYPE_ATTR_def)
  also have "\<dots> = attrs (nodes st1 e) TYPE_ATTR"
    using ei by (simp add: nb sa_def classList_add_attrs TYPE_ATTR_def)
  finally have ty: "getType st3 e = Some TYPE_IMAGE"
    using t1 by (simp add: getType_def getAttribute_def)
  have ev: "events st3 = events st1 @
          (case opt_callback of None \<Rightarrow> [] | Some f \<Rightarrow> [Callback f e i]) @ [SetSelection]"
    using eff(14) by (cases opt_callback) (simp_all add: l_def eb)
  have il': "imageLoaded (length (loaders st1))
      (setImageUrl e url opt_callback opt_errorCallback st1) = st3"
    using il by (simp add: st2_def st3_def)
  show ?thesis
    apply (rule exI [of _ st1])
    apply (rule exI [of _ st3])
    using cr il' gc ti(2) src idn hc ld ty ev
    apply (simp add: lo1 ev1 e_def i_def cong: option.case_cong)
    done
qed


text \<open>On the example stage the new element is node 5 and its image is node 6.\<close>

lemma wellAllocated_stage: "wellAllocated stageEnv stageState"
  by (simp add: wellAllocated_def stageEnv_def stageState_def plainNode_def typedNode_def)

theorem create_image_then_load_witness:
  "\<exists>st1 st3. createElement stageEnv TYPE_IMAGE stageState = Inr (5, st1)
     \<and> imageLoaded 0 (setImageUrl 5 ''a.png'' (Some 7) None st1) = st3
     \<and> getContentNode st3 5 = 6
     \<and> tagName (nodes st3 6) = ''IMG''
     \<and> attrs (nodes st3 6) ''src'' = Some ''a.png''
     \<and> attrs (nodes st3 6) ''id'' = None
     \<and> hasClass st3 ELEMENT_CONTENT_CLASS_NAME 6
     \<and> LOADING_ELEMENT_CSS_CLASS \<notin> set (classList st3 5)
     \<and> getType st3 5 = Some TYPE_IMAGE
     \<and> events st3 = [Callback 7 5 6, SetSelection]"
proof -
  have n: "nextNode stageState = 5" "loaders stageState = []" "events stageState = []"
    by (simp_all add: stageState_def)
  show ?thesis
    using create_image_then_load [OF wellAllocated_stage, of "''a.png''" "Some 7" None]
    by (simp add: n eval_nat_numeral)
qed

subsection \<open>A load that ends after a later call\<close>

lemma stage4: "getType stageState 4 = Some TYPE_IMAGE" "childNodes (nodes stageState 4) = []"
  by (simp_all add: stageState_def typedNode_def plainNode_def getType_def getAttribute_def)

lemma firstLoad: "setImageUrl 4 ''a.png'' None None stageState =
   startImageLoader 4 ''a.png'' None None (classList_add 4 LOADING_ELEMENT_CSS_CLASS stageState)"
  using stage4 by (rule setImageUrl_leaf)

lemma twoLoads_eq: "twoLoads =
   startImageLoader 4 ''b.png'' None None (classList_add 4 LOADING_ELEMENT_CSS_CLASS
     (startImageLoader 4 ''a.png'' None None (classList_add 4 LOADING_ELEMENT_CSS_CLASS stageState)))"
  unfolding twoLoads_def firstLoad
  by (rule setImageUrl_leaf)
     (simp_all add: startImageLoader_def getType_def getAttribute_def classList_add_attrs
        TYPE_ATTR_def stageState_def typedNode_def plainNode_def)


lemma twoLoads_facts:
  "loaders twoLoads = [firstLoader, secondLoader]"
  "nextNode twoLoads = 7"
  "childNodes (nodes twoLoads 4) = []"
  "childNodes (nodes twoLoads 5) = []" "childNodes (nodes twoLoads 6) = []"
  "parentNode (nodes twoLoads 5) = None" "parentNode (nodes twoLoads 6) = None"
  "nodeType (nodes twoLoads 5) = 1" "nodeType (nodes twoLoads 6) = 1"
  by (simp_all add: twoLoads_eq startImageLoader_def firstLoader_def secondLoader_def
      stageState_def typedNode_def plainNode_def)

lemma secondDone_eq: "secondDone = onImageLoad secondLoader (twoLoads\<lparr>loaders := [firstLoader]\<rparr>)"
  by (simp add: secondDone_def imageLoaded_def twoLoads_facts)

lemma secondDone_facts:
  "loaders secondDone = [firstLoader]"
  "nextNode secondDone = 7"
  "childNodes (nodes secondDone 4) = [6]"
  "childNodes (nodes secondDone 5) = []" "childNodes (nodes secondDone 6) = []"
  "parentNode (nodes secondDone 5) = None"
  "nodeType (nodes secondDone 5) = 1"
  "hasClass secondDone ELEMENT_CONTENT_CLASS_NAME 6"
proof -
  define X where "X = twoLoads\<lparr>loaders := [firstLoader]\<rparr>"
  have det: "parentNode (nodes X (ld_image secondLoader)) = None"
    and ne: "ld_image secondLoader \<noteq> ld_element secondLoader"
    by (simp_all add: X_def secondLoader_def twoLoads_facts)
  have se: "secondDone = onImageLoad secondLoader X" by (simp add: secondDone_eq X_def)
  note eff = onImageLoad_effect [OF det ne, folded se]
  have ld: "ld_element secondLoader = 4" "ld_image secondLoader = 6"
    by (simp_all add: secondLoader_def)
  have five: "nodes secondDone 5 = nodes X 5"
    using eff(13) [of 5] by (simp add: ld)
  show "loaders secondDone = [firstLoader]" using eff(12) by (simp add: X_def)
  show "nextNode secondDone = 7" using eff(11) by (simp add: X_def twoLoads_facts)
  show "childNodes (nodes secondDone 4) = [6]"
    using eff(1) by (simp add: X_def ld twoLoads_facts)
  show "childNodes (nodes secondDone 6) = []"
    using eff(2) by (simp add: X_def ld twoLoads_facts)
  show "childNodes (nodes secondDone 5) = []" "parentNode (nodes secondDone 5) = None"
    "nodeType (nodes secondDone 5) = 1"
    by (simp_all add: five X_def twoLoads_facts)
  show "hasClass secondDone ELEMENT_CONTENT_CLASS_NAME 6"
    using eff(4) eff(8) [of 6] by (simp add: hasClass_def ld X_def twoLoads_facts)
qed

lemma firstLate_eq: "firstLate = onImageLoad firstLoader (secondDone\<lparr>loaders := []\<rparr>)"
  by (simp add: firstLate_def imageLoaded_def secondDone_facts)

text \<open>
  The handler of \<^verbatim>\<open>LOAD\<close> makes no test of whether its call is still the latest
  one for the element: whenever the load of a call ends, in whatever state, its image
  (still detached, as the loader left it) is appended after the element's present
  children, gets the content class, and the loading class of the element is removed.
\<close>

lemma onImageLoad_appends:
  assumes "parentNode (nodes st (ld_image l)) = None"
    and "ld_image l \<noteq> ld_element l"
    and "nodeType (nodes st (ld_image l)) = 1"
  shows "childNodes (nodes (onImageLoad l st) (ld_element l)) =
           childNodes (nodes st (ld_element l)) @ [ld_image l]
     \<and> parentNode (nodes (onImageLoad l st) (ld_image l)) = Some (ld_element l)
     \<and> hasClass (onImageLoad l st) ELEMENT_CONTENT_CLASS_NAME (ld_image l)
     \<and> LOADING_ELEMENT_CSS_CLASS \<notin> set (classList (onImageLoad l st) (ld_element l))"
  using assms onImageLoad_effect [of st l] by (simp add: hasClass_def)

text \<open>
  What one call of \<^verbatim>\<open>setImageUrl\<close> on an image element leaves behind, whatever the
  element contains: one more pending load, for a fresh detached \<^verbatim>\<open>img\<close> node; detached
  nodes stay detached.
\<close>

lemma removeNode_frame [simp]:
  "nodeType (nodes (removeNode t st) n) = nodeType (nodes st n)"
  "attrs (nodes (removeNode t st) n) = attrs (nodes st n)"
  "nextNode (removeNode t st) = nextNode st"
  "loaders (removeNode t st) = loaders st"
  "events (removeNode t st) = events st"
  by (simp_all add: removeNode_def upd_node_def split: option.splits)

lemma removeNode_keeps_detached:
  "parentNode (nodes st n) = None \<Longrightarrow> parentNode (nodes (removeNode t st) n) = None"
  by (simp add: removeNode_def split: option.splits)

lemma setImageUrl_image:
  assumes ty: "getType st e = Some TYPE_IMAGE" and ne: "e \<noteq> nextNode st"
  shows "loaders (setImageUrl e url cbk ecb st) = loaders st @
            [\<lparr>ld_element = e, ld_image = nextNode st, ld_callback = cbk, ld_errorCallback = ecb\<rparr>]"
    and "nextNode (setImageUrl e url cbk ecb st) = Suc (nextNode st)"
    and "parentNode (nodes (setImageUrl e url cbk ecb st) (nextNode st)) = None"
    and "nodeType (nodes (setImageUrl e url cbk ecb st) (nextNode st)) = 1"
    and "getType (setImageUrl e url cbk ecb st) e = Some TYPE_IMAGE"
    and "parentNode (nodes st n) = None \<Longrightarrow> parentNode (nodes (setImageUrl e url cbk ecb st) n) = None"
    and "n \<noteq> nextNode st \<Longrightarrow>
           nodeType (nodes (setImageUrl e url cbk ecb st) n) = nodeType (nodes st n)"
proof -
  define st1 where "st1 = classList_add e LOADING_ELEMENT_CSS_CLASS st"
  define st2 where "st2 =
     (case getElementsByTagNameAndClass st1 ''IMG'' ELEMENT_CONTENT_CLASS_NAME e of
        [] \<Rightarrow> st1 | t # _ \<Rightarrow> removeNode t st1)"
  have r: "setImageUrl e url cbk ecb st = startImageLoader e url cbk ecb st2"
    unfolding st2_def st1_def using ty by (simp add: setImageUrl_def getType_def Let_def)
  have x2: "nextNode st2 = nextNode st" "loaders st2 = loaders st"
    by (simp_all add: st2_def st1_def split: list.splits)
  have t2: "attrs (nodes st2 e) TYPE_ATTR = Some TYPE_IMAGE"
    using ty
    by (simp add: st2_def st1_def getType_def getAttribute_def classList_add_attrs TYPE_ATTR_def
        split: list.splits)
  have p2: "parentNode (nodes st2 n) = None" if "parentNode (nodes st n) = None" for n
    using that by (simp add: st2_def st1_def removeNode_keeps_detached split: list.splits)
  have y2: "nodeType (nodes st2 n) = nodeType (nodes st n)" for n
    by (simp add: st2_def st1_def split: list.splits)
  show "loaders (setImageUrl e url cbk ecb st) = loaders st @
            [\<lparr>ld_element = e, ld_image = nextNode st, ld_callback = cbk, ld_errorCallback = ecb\<rparr>]"
    by (simp add: r startImageLoader_def x2)
  show "nextNode (setImageUrl e url cbk ecb st) = Suc (nextNode st)"
    by (simp add: r startImageLoader_def x2)
  show "parentNode (nodes (setImageUrl e url cbk ecb st) (nextNode st)) = None"
    by (simp add: r startImageLoader_def x2)
  show "nodeType (nodes (setImageUrl e url cbk ecb st) (nextNode st)) = 1"
    by (simp add: r startImageLoader_def x2)
  show "getType (setImageUrl e url cbk ecb st) e = Some TYPE_IMAGE"
    using ne t2 by (simp add: r startImageLoader_def x2 getType_def getAttribute_def)
  show "parentNode (nodes (setImageUrl e url cbk ecb st) n) = None" if "parentNode (nodes st n) = None"
    using p2 [OF that] by (simp add: r startImageLoader_def x2)
  show "nodeType (nodes (setImageUrl e url cbk ecb st) n) = nodeType (nodes st n)"
    if "n \<noteq> nextNode st"
    using that y2 [of n] by (simp add: r startImageLoader_def x2)
qed

lemma two_matches:
  assumes "x \<in> set xs" "y \<in> set xs" "x \<noteq> y" "P x" "P y"
  shows "\<exists>a b rest. filter P xs = a # b # rest"
proof -
  have "x \<in> set (filter P xs)" "y \<in> set (filter P xs)" using assms by auto
  with assms(3) show ?thesis
    by (cases "filter P xs" rule: list.exhaust; cases "tl (filter P xs)") auto
qed

lemma children_are_descendants:
  "c \<in> set (childNodes (h n)) \<Longrightarrow> c \<in> set (descendants (Suc k) h n)"
  by auto

text \<open>
  C6 (as the code has it). \<^verbatim>\<open>setImageUrl\<close> is called twice on an image element, the
  load of the second call ends first and the load of the first call ends after it.
  The late completion of the first call is applied like any other: its image is
  appended after the image of the second call, both carry the content class, the
  loading class is gone, and \<^verbatim>\<open>getContentNode\<close>, finding two candidates, falls back to
  the element itself. This holds for every image element of every state, whatever the
  element contained before the two calls.
\<close>

theorem late_load_is_applied:
  assumes ty: "getType st e = Some TYPE_IMAGE" and ex: "e < nextNode st"
  shows "let calls = setImageUrl e url2 cb2 ecb2 (setImageUrl e url1 cb1 ecb1 st);
             second = imageLoaded (Suc (length (loaders st))) calls;
             late = imageLoaded (length (loaders st)) second
         in childNodes (nodes second e) = childNodes (nodes calls e) @ [Suc (nextNode st)]
          \<and> childNodes (nodes late e) =
               childNodes (nodes calls e) @ [Suc (nextNode st), nextNode st]
          \<and> hasClass late ELEMENT_CONTENT_CLASS_NAME (nextNode st)
          \<and> hasClass late ELEMENT_CONTENT_CLASS_NAME (Suc (nextNode st))
          \<and> LOADING_ELEMENT_CSS_CLASS \<notin> set (classList late e)
          \<and> getContentNode late e = e"
proof -
  define i1 where "i1 = nextNode st"
  define i2 where "i2 = Suc i1"
  define l1 where "l1 = \<lparr>ld_element = e, ld_image = i1, ld_callback = cb1, ld_errorCallback = ecb1\<rparr>"
  define l2 where "l2 = \<lparr>ld_element = e, ld_image = i2, ld_callback = cb2, ld_errorCallback = ecb2\<rparr>"
  define st1 where "st1 = setImageUrl e url1 cb1 ecb1 st"
  define st2 where "st2 = setImageUrl e url2 cb2 ecb2 st1"
  have ne1: "e \<noteq> nextNode st" using ex by simp
  note c1 = setImageUrl_image [OF ty ne1, where url = url1 and cbk = cb1 and ecb = ecb1,
      folded st1_def i1_def l1_def]
  have x1: "nextNode st1 = i2" using c1(2) by (simp add: i2_def)
  have ne2: "e \<noteq> nextNode st1" using ex by (simp add: x1 i2_def i1_def)
  note c2 = setImageUrl_image [OF c1(5) ne2, where url = url2 and cbk = cb2 and ecb = ecb2,
      folded st2_def, unfolded x1, folded l2_def]
  have lo2: "loaders st2 = loaders st @ [l1, l2]" using c2(1) c1(1) by (simp add: l1_def)
  have d1: "parentNode (nodes st2 i1) = None" using c2(6) [OF c1(3)] .
  have y1: "nodeType (nodes st2 i1) = 1" using c2(7) [of i1] c1(4) by (simp add: i2_def)
  have d2: "parentNode (nodes st2 i2) = None" using c2(3) .
  have y2: "nodeType (nodes st2 i2) = 1" using c2(4) .
  have ids: "i1 \<noteq> e" "i2 \<noteq> e" "i1 \<noteq> i2" using ex by (simp_all add: i1_def i2_def)
  \<comment> \<open>the load of the second call ends first\<close>
  define sa where "sa = st2\<lparr>loaders := loaders st @ [l1]\<rparr>"
  define stA where "stA = imageLoaded (Suc (length (loaders st))) st2"
  have A: "stA = onImageLoad l2 sa"
    by (simp add: stA_def imageLoaded_def lo2 sa_def nth_append)
  have le2: "ld_element l2 = e" "ld_image l2 = i2" by (simp_all add: l2_def)
  have detA: "parentNode (nodes sa (ld_image l2)) = None" and neA: "ld_image l2 \<noteq> ld_element l2"
    using d2 ids by (simp_all add: sa_def le2)
  note eA = onImageLoad_effect [OF detA neA, folded A, unfolded le2]
  have chA: "childNodes (nodes stA e) = childNodes (nodes st2 e) @ [i2]"
    using eA(1) by (simp add: sa_def)
  have A1: "nodes stA i1 = nodes st2 i1"
    using eA(13) [of i1] ids by (simp add: sa_def)
  have loA: "loaders stA = loaders st @ [l1]" using eA(12) by (simp add: sa_def)
  have hA: "ELEMENT_CONTENT_CLASS_NAME \<in> set (classList stA i2)" using eA(4) .
  have yA: "nodeType (nodes stA i2) = 1" using eA(8) [of i2] y2 by (simp add: sa_def)
  \<comment> \<open>then the load of the first call ends\<close>
  define sb where "sb = stA\<lparr>loaders := loaders st\<rparr>"
  define stB where "stB = imageLoaded (length (loaders st)) stA"
  have B: "stB = onImageLoad l1 sb"
    by (simp add: stB_def imageLoaded_def loA sb_def)
  have le1: "ld_element l1 = e" "ld_image l1 = i1" by (simp_all add: l1_def)
  have detB: "parentNode (nodes sb (ld_image l1)) = None" and neB: "ld_image l1 \<noteq> ld_element l1"
    using d1 ids by (simp_all add: sb_def le1 A1)
  note eB = onImageLoad_effect [OF detB neB, folded B, unfolded le1]
  have chB: "childNodes (nodes stB e) = childNodes (nodes st2 e) @ [i2, i1]"
    using eB(1) chA by (simp add: sb_def)
  have h1: "hasClass stB ELEMENT_CONTENT_CLASS_NAME i1"
    using eB(4) eB(8) [of i1] y1 by (simp add: hasClass_def sb_def A1)
  have B2: "nodes stB i2 = nodes sb i2" using eB(13) [of i2] ids by simp
  have h2: "hasClass stB ELEMENT_CONTENT_CLASS_NAME i2"
    using hA yA by (simp add: hasClass_def classList_def className_def B2 sb_def)
  have ld: "LOADING_ELEMENT_CSS_CLASS \<notin> set (classList stB e)" using eB(10) .
  have xB: "nextNode stB = Suc i2" using eB(11) eA(11) c2(2) by (simp add: sb_def sa_def)
  have "i1 \<in> set (descendants (nextNode stB) (nodes stB) e)"
       "i2 \<in> set (descendants (nextNode stB) (nodes stB) e)"
    unfolding xB by (rule children_are_descendants, simp add: chB)+
  from two_matches [OF this ids(3) h1 h2]
  have gc: "getContentNode stB e = e"
    by (auto simp: getContentNode_def getElementsByClass_def)
  from chA chB h1 h2 ld gc show ?thesis
    by (simp add: Let_def st2_def st1_def stA_def stB_def i1_def i2_def)
qed

text \<open>
  On the example stage, with the image element 4: the late completion of the first
  call puts its image (node 5) after the image of the second call (node 6).
\<close>

theorem late_load_is_applied_witness:
  "childNodes (nodes firstLate 4) = [6, 5]
   \<and> hasClass firstLate ELEMENT_CONTENT_CLASS_NAME 5
   \<and> hasClass firstLate ELEMENT_CONTENT_CLASS_NAME 6
   \<and> LOADING_ELEMENT_CSS_CLASS \<notin> set (classList firstLate 4)
   \<and> getContentNode firstLate 4 = 4"
proof -
  have n: "nextNode stageState = 5" "loaders stageState = []"
    by (simp_all add: stageState_def)
  have ex: "4 < nextNode stageState" by (simp add: n)
  have f: "imageLoaded 0 (imageLoaded (Suc 0) twoLoads) = firstLate"
    by (simp add: firstLate_def secondDone_def)
  from late_load_is_applied [OF stage4(1) ex, of "''b.png''" None None "''a.png''" None None]
  show ?thesis
    by (simp add: Let_def n twoLoads_def [symmetric] f twoLoads_facts)
qed

text \<open>
  The claim as stated (a late completion of the earlier call is discarded and does not
  change the node) fails in that scenario: after the second call's load has ended the
  content node of the element is node 6; the late completion of the first call then
  makes node 5 a second child with the content class, after which
  \<^verbatim>\<open>getContentNode\<close> finds two candidates and falls back to the element itself.
\<close>

theorem stale_load_counterexample:
  "getContentNode secondDone 4 = 6
   \<and> childNodes (nodes secondDone 4) = [6]
   \<and> childNodes (nodes firstLate 4) = [6, 5]
   \<and> getContentNode firstLate 4 = 4"
proof -
  define Y where "Y = secondDone\<lparr>loaders := []\<rparr>"
  have det: "parentNode (nodes Y (ld_image firstLoader)) = None"
    and ne: "ld_image firstLoader \<noteq> ld_element firstLoader"
    by (simp_all add: Y_def firstLoader_def secondDone_facts)
  have fe: "firstLate = onImageLoad firstLoader Y" by (simp add: firstLate_eq Y_def)
  note eff = onImageLoad_effect [OF det ne, folded fe]
  have d1: "descendants 7 (nodes secondDone) 4 = [6]"
    by (subst descendants_leaves) (simp_all add: secondDone_facts)
  have g1: "getContentNode secondDone 4 = 6"
    by (simp add: getContentNode_def getElementsByClass_def d1 secondDone_facts)
  have ld: "ld_element firstLoader = 4" "ld_image firstLoader = 5"
    by (simp_all add: firstLoader_def)
  have c4: "childNodes (nodes firstLate 4) = [6, 5]"
    using eff(1) by (simp add: Y_def ld secondDone_facts)
  have c5: "childNodes (nodes firstLate 5) = []"
    using eff(2) by (simp add: Y_def ld secondDone_facts)
  have six: "nodes firstLate 6 = nodes Y 6"
    using eff(13) [of 6] by (simp add: ld)
  have c6: "childNodes (nodes firstLate 6) = []"
    by (simp add: six Y_def secondDone_facts)
  have h5: "hasClass firstLate ELEMENT_CONTENT_CLASS_NAME 5"
    using eff(4) eff(8) [of 5] by (simp add: hasClass_def ld Y_def secondDone_facts)
  have h6: "hasClass firstLate ELEMENT_CONTENT_CLASS_NAME 6"
    using secondDone_facts(8) by (simp add: hasClass_def classList_def className_def six Y_def)
  have x: "nextNode firstLate = 7" using eff(11) by (simp add: Y_def secondDone_facts)
  have d2: "descendants 7 (nodes firstLate) 4 = [6, 5]"
    by (subst descendants_leaves) (simp_all add: c4 c5 c6)
  have g2: "getContentNode firstLate 4 = 4"
    by (simp add: getContentNode_def getElementsByClass_def x d2 h5 h6)
  from g1 c4 g2 show ?thesis by (simp add: secondDone_facts)
qed

subsection \<open>The round trip of the two HTML transforms\<close>


lemma matchScriptTag_Nil [simp]: "matchScriptTag [] = None"
  by (simp add: matchScriptTag_def)













subsection \<open>Writes of setStyle\<close>

lemma classList_remove_store [simp]:
  "storeWrites (classList_remove el t st) = storeWrites st"
  "styleStore (classList_remove el t st) = styleStore st"
  by (simp_all add: classList_remove_def setAttribute_def upd_node_def Let_def)









subsection \<open>The public class names\<close>

lemma split_on_append_P: "P c \<Longrightarrow> split_on P (s @ c # t) = split_on P s @ split_on P t"
proof (induction s)
  case Nil
  then show ?case by simp
next
  case (Cons a s)
  obtain w ws where w: "split_on P s = w # ws" by (cases "split_on P s") auto
  with Cons show ?case by auto
qed

lemma pieces_all_P: "\<forall>c\<in>set t. P c \<Longrightarrow> nonEmptyPieces P t = []"
  by (induction t) (auto simp: nonEmptyPieces_def)

lemma pieces_dropWhile: "nonEmptyPieces P (dropWhile P s) = nonEmptyPieces P s"
  by (induction s) (auto simp: nonEmptyPieces_def)

lemma pieces_append_P:
  assumes "\<forall>c\<in>set t. P c"
  shows "nonEmptyPieces P (s @ t) = nonEmptyPieces P s"
proof (cases t)
  case Nil
  then show ?thesis by simp
next
  case (Cons c t')
  with assms have "P c" and "\<forall>c\<in>set t'. P c" by auto
  then show ?thesis
    using pieces_all_P [of t' P]
    by (simp add: Cons nonEmptyPieces_def split_on_append_P)
qed

lemma pieces_strip_end: "nonEmptyPieces P (rev (dropWhile P (rev s))) = nonEmptyPieces P s"
proof -
  have "s = rev (dropWhile P (rev s)) @ rev (takeWhile P (rev s))"
    by (metis rev_append rev_rev_ident takeWhile_dropWhile_id)
  moreover have "\<forall>c\<in>set (rev (takeWhile P (rev s))). P c"
    by (auto dest: set_takeWhileD)
  ultimately show ?thesis using pieces_append_P by metis
qed

lemma set_join: "set (join sep xs) \<subseteq> set sep \<union> (\<Union>x\<in>set xs. set x)"
  by (induction sep xs rule: join.induct) auto

lemma split_on_subset_all: "\<forall>t\<in>set (split_on P s). set t \<subseteq> set s"
proof (induction s)
  case Nil
  show ?case by simp
next
  case (Cons a s)
  obtain w ws where w: "split_on P s = w # ws" by (cases "split_on P s") auto
  show ?case
  proof (cases "P a")
    case True
    with Cons show ?thesis by auto
  next
    case False
    with Cons w show ?thesis by auto
  qed
qed

lemma split_on_subset: "t \<in> set (split_on P s) \<Longrightarrow> set t \<subseteq> set s"
  using split_on_subset_all by blast

lemma dropWhile_agree: "\<forall>c\<in>set s. P c = Q c \<Longrightarrow> dropWhile P s = dropWhile Q s"
  by (induction s) auto

lemma trim_only_spaces:
  assumes "\<forall>c\<in>set s. jsWhitespace c \<longrightarrow> c = CHR '' ''"
  shows "trim s = rev (dropWhile (\<lambda>c. c = CHR '' '') (rev (dropWhile (\<lambda>c. c = CHR '' '') s)))"
proof -
  define sp where "sp = (\<lambda>c. c = CHR '' '')"
  have agree: "\<forall>c\<in>set s. jsWhitespace c = sp c"
    using assms by (auto simp: sp_def jsWhitespace_def)
  then have a: "dropWhile jsWhitespace s = dropWhile sp s"
    by (rule dropWhile_agree)
  have "set (rev (dropWhile sp s)) \<subseteq> set s"
    by (auto dest: set_dropWhileD)
  with agree have "\<forall>c\<in>set (rev (dropWhile sp s)). jsWhitespace c = sp c" by blast
  then have b: "dropWhile jsWhitespace (rev (dropWhile sp s)) = dropWhile sp (rev (dropWhile sp s))"
    by (rule dropWhile_agree)
  have "trim s = rev (dropWhile sp (rev (dropWhile sp s)))"
    unfolding trim_def a b ..
  then show ?thesis by (simp only: sp_def)
qed

text \<open>
  C5 (as the code has it). \<^verbatim>\<open>getClassName\<close> splits the class attribute at single
  spaces, writes the empty string for every piece that is one of Silex's class names, a
  page name or the id of the element, joins the pieces with single spaces again and
  trims the result: a dropped class leaves its separator behind. When the only white
  space in the attribute is the space character, the non-empty pieces of the result are
  exactly the non-empty pieces of the attribute that are not internal, in their order,
  and so none of them is one of Silex's class names, a page name or the id.
\<close>

theorem getClassName_survivors:
  assumes "\<forall>c\<in>set (className st element). jsWhitespace c \<longrightarrow> c = CHR '' ''"
  shows "nonEmptyPieces (\<lambda>c. c = CHR '' '') (getClassName env st element) =
     filter (\<lambda>name. name \<noteq> [] \<and> \<not> isInternalClass env st element name)
       (split_on (\<lambda>c. c = CHR '' '') (className st element))
     \<and> (\<forall>name \<in> set (nonEmptyPieces (\<lambda>c. c = CHR '' '') (getClassName env st element)).
           name \<notin> set (SILEX_CLASS_NAMES env) \<and> name \<notin> set (getPages env)
           \<and> property_getSilexId st element \<noteq> Some name)"
proof -
  define sp where "sp = (\<lambda>c. c = CHR '' '')"
  define toks where "toks = split_on sp (className st element)"
  define kept where "kept = map (\<lambda>x. case x of None \<Rightarrow> [] | Some name \<Rightarrow> name)
         (map (\<lambda>name. if isInternalClass env st element name then None else Some name) toks)"
  have kept_eq: "kept = map (\<lambda>name. if isInternalClass env st element name then [] else name) toks"
    unfolding kept_def by (induction toks) auto
  have ne: "kept \<noteq> []" by (simp add: kept_eq toks_def)
  have nosp: "\<forall>t\<in>set kept. \<forall>c\<in>set t. \<not> sp c"
    using split_on_pieces [of _ sp "className st element"] by (auto simp: kept_eq toks_def)
  have sub: "\<forall>t\<in>set kept. set t \<subseteq> set (className st element)"
    using split_on_subset [of _ sp "className st element"] by (auto simp: kept_eq toks_def)
  have "set (join '' '' kept) \<subseteq> set '' '' \<union> (\<Union>x\<in>set kept. set x)" by (rule set_join)
  with sub have "set (join '' '' kept) \<subseteq> insert (CHR '' '') (set (className st element))" by auto
  with assms have only: "\<forall>c\<in>set (join '' '' kept). jsWhitespace c \<longrightarrow> c = CHR '' ''" by auto
  have g: "getClassName env st element = trim (join '' '' kept)"
    by (simp add: getClassName_def kept_def toks_def sp_def)
  have "trim (join '' '' kept) = rev (dropWhile sp (rev (dropWhile sp (join '' '' kept))))"
    unfolding sp_def using only by (rule trim_only_spaces)
  then have "nonEmptyPieces sp (getClassName env st element) = nonEmptyPieces sp (join '' '' kept)"
    by (simp only: g pieces_strip_end pieces_dropWhile)
  also have "\<dots> = filter (\<lambda>w. w \<noteq> []) kept"
    using split_on_join [OF ne nosp, of "CHR '' ''"] by (simp add: nonEmptyPieces_def sp_def)
  also have "\<dots> = filter (\<lambda>name. name \<noteq> [] \<and> \<not> isInternalClass env st element name) toks"
    unfolding kept_eq by (induction toks) auto
  finally have main: "nonEmptyPieces sp (getClassName env st element) =
      filter (\<lambda>name. name \<noteq> [] \<and> \<not> isInternalClass env st element name) toks" .
  then show ?thesis
    unfolding sp_def toks_def by (auto simp: isInternalClass_def)
qed


lemma stage_class:
  "className (setAttribute 2 ''class'' cls stageState) 2 = cls"
  "property_getSilexId (setAttribute 2 ''class'' cls stageState) 2 = None"
  by (simp_all add: className_def setAttribute_def property_getSilexId_def stageState_def upd_node_def)

lemma stage_internal:
  "isInternalClass stageEnv (setAttribute 2 ''class'' cls stageState) 2 name \<longleftrightarrow>
     name = ''page1'' \<or> name = ''page2''"
  by (auto simp add: isInternalClass_def stage_class stageEnv_def)

text \<open>On the example stage, for node 2 with the class attribute \<^verbatim>\<open>a page1 b\<close>.\<close>

theorem getClassName_survivors_witness:
  "nonEmptyPieces (\<lambda>c. c = CHR '' '')
      (getClassName stageEnv (setAttribute 2 ''class'' ''a page1 b'' stageState) 2) = [''a'', ''b'']"
proof -
  have "\<forall>c\<in>set (className (setAttribute 2 ''class'' ''a page1 b'' stageState) 2).
          jsWhitespace c \<longrightarrow> c = CHR '' ''"
    by (simp add: stage_class jsWhitespace_def)
  from getClassName_survivors [OF this, of stageEnv, THEN conjunct1]
  show ?thesis by (simp add: stage_class stage_internal)
qed

text \<open>
  The claim as stated fails in both of its parts. The survivors are not joined with
  single spaces: for the class attribute \<^verbatim>\<open>a page1 b\<close> the result is \<^verbatim>\<open>a  b\<close>, with
  two spaces, where the spec's reading gives \<^verbatim>\<open>a b\<close>. And a page name can be
  returned: for a class attribute that is a tab followed by \<^verbatim>\<open>page1\<close>, the piece is not
  equal to the page name, so it is kept, and trimming then leaves exactly \<^verbatim>\<open>page1\<close>.
\<close>

theorem getClassName_counterexample:
  "getClassName stageEnv (setAttribute 2 ''class'' ''a page1 b'' stageState) 2 = ''a  b''
   \<and> publicClasses_spec stageEnv (setAttribute 2 ''class'' ''a page1 b'' stageState) 2 = ''a b''
   \<and> getClassName stageEnv (setAttribute 2 ''class'' (CHR 0x09 # ''page1'') stageState) 2 = ''page1''
   \<and> ''page1'' \<in> set (getPages stageEnv)"
proof -
  have "''page1'' \<in> set (getPages stageEnv)" by (simp add: stageEnv_def)
  then show ?thesis
    by (simp add: getClassName_def publicClasses_spec_def stage_class stage_internal trim_def
        jsWhitespace_def)
qed

subsection \<open>An element that is not an image\<close>

text \<open>
  C8. When the type attribute of the element is not \<^verbatim>\<open>image\<close> (also when it is
  absent), \<^verbatim>\<open>setImageUrl\<close> changes nothing but the record of what was reported: no
  node, no loader, no style is touched; the error goes to \<^verbatim>\<open>console.error\<close> and,
  when an error callback is given, the callback is called with the element and the
  message.
\<close>

theorem setImageUrl_not_image:
  assumes "getAttribute st element TYPE_ATTR \<noteq> Some TYPE_IMAGE"
  shows "setImageUrl element url opt_callback opt_errorCallback st =
     st\<lparr>events := events st @ [ConsoleError ''The element is not an image.'' element] @
        (case opt_errorCallback of None \<Rightarrow> []
         | Some f \<Rightarrow> [ErrorCallback f element ''The element is not an image.''])\<rparr>"
  using assms by (simp add: setImageUrl_def reportError_def)

text \<open>On the example stage, for node 1 (a container) with both callbacks given.\<close>

theorem setImageUrl_not_image_witness:
  "setImageUrl 1 ''a.png'' (Some 7) (Some 8) stageState =
     stageState\<lparr>events := [ConsoleError ''The element is not an image.'' 1,
        ErrorCallback 8 1 ''The element is not an image.'']\<rparr>"
  using setImageUrl_not_image [of stageState 1 "''a.png''" "Some 7" "Some 8"]
  by (simp add: getAttribute_def stageState_def typedNode_def plainNode_def TYPE_ATTR_def
      TYPE_IMAGE_def TYPE_CONTAINER_def)

subsection \<open>Links\<close>

text \<open>
  C10. \<^verbatim>\<open>setLink(node, "")\<close> clears the link: afterwards the attribute
  \<^verbatim>\<open>data-silex-href\<close> is absent from the node (it is not present with an empty value),
  and \<^verbatim>\<open>getLink\<close> returns \<^verbatim>\<open>null\<close>. This holds whatever the link was before.
\<close>

theorem setLink_empty_clears:
  "attrs (nodes (setLink element (Str []) st) element) LINK_ATTR = None
   \<and> getLink (setLink element (Str []) st) element = None"
  by (simp add: setLink_def getLink_def getAttribute_def removeAttribute_def upd_node_def)

end
